theory Spec2Isabelle
  imports Complex_Main "HOL-Library.AList"
begin

section \<open>Tables\<close>

text \<open>
  The two transformers of \<^verbatim>\<open>ts_features\<close> work on a pandas \<^verbatim>\<open>DataFrame\<close>. A frame is
  modelled as the ordered list of its named columns; \<^verbatim>\<open>X.columns\<close> is the list of the names.
  Column names are unique in a well-formed frame and all columns have the same number of rows.
  Python exceptions are values of \<open>error\<close>: the two \<^verbatim>\<open>assert\<close> statements of the source raise
  \<open>AssertionError\<close> (the configuration error of the specification), a label that is not a
  column raises \<open>KeyError\<close>, iterating over \<^verbatim>\<open>None\<close> raises \<open>TypeError\<close>, a cast of a missing
  value or of an object that is no number to an integer raises \<open>ValueError\<close>, a cast of a
  Python number beyond the range of the target raises \<open>OverflowError\<close>, and reading a
  timestamp attribute of a value that is no timestamp raises \<open>AttributeError\<close>.
\<close>

datatype error =
  AssertionError | KeyError | TypeError | ValueError | OverflowError | AttributeError

text \<open>A function on every element in order; the first raise ends it.\<close>

fun map_values :: "('a \<Rightarrow> error + 'b) \<Rightarrow> 'a list \<Rightarrow> error + 'b list" where
  "map_values f [] = Inr []"
| "map_values f (v # vs) =
     (case f v of
        Inl e \<Rightarrow> Inl e
      | Inr w \<Rightarrow> (case map_values f vs of Inl e \<Rightarrow> Inl e | Inr ws \<Rightarrow> Inr (w # ws)))"

type_synonym 'c frame = "(string \<times> 'c) list"

definition columns :: "'c frame \<Rightarrow> string list" where
  "columns X = map fst X"

text \<open>\<^verbatim>\<open>X.loc[:, name]\<close> and \<^verbatim>\<open>X[name]\<close> as a read.\<close>

definition loc_get :: "'c frame \<Rightarrow> string \<Rightarrow> error + 'c" where
  "loc_get X name = (case map_of X name of None \<Rightarrow> Inl KeyError | Some s \<Rightarrow> Inr s)"

text \<open>
  \<^verbatim>\<open>X.loc[:, name] = s\<close> and \<^verbatim>\<open>X[name] = s\<close>: an existing column is replaced where it stands,
  a new one is appended after the last column.
\<close>

definition loc_set :: "'c frame \<Rightarrow> string \<Rightarrow> 'c \<Rightarrow> 'c frame" where
  "loc_set X name s = AList.update name s X"

text \<open>\<^verbatim>\<open>X.drop(columns=names, inplace=True)\<close>: every label must be a column.\<close>

definition drop_columns :: "'c frame \<Rightarrow> string list \<Rightarrow> error + 'c frame" where
  "drop_columns X names =
     (if list_all (\<lambda>n. n \<in> set (columns X)) names
      then Inr (filter (\<lambda>p. fst p \<notin> set names) X)
      else Inl KeyError)"

section \<open>Series of the lag transformer\<close>

text \<open>
  A cell holds a Python value: an integer, a finite float (a float64 is a rational number) or
  an object of another kind, whose type \<open>'a\<close> is left open; \<open>None\<close> is the missing value
  (NaN). A series has a dtype and one cell per row. The dtypes of the model are
  \<^verbatim>\<open>int64\<close>, \<^verbatim>\<open>float64\<close> and \<^verbatim>\<open>object\<close>; a pandas column of dtype \<^verbatim>\<open>int64\<close> holds integers of the
  int64 range and no missing value, one of dtype \<^verbatim>\<open>float64\<close> holds floats.
\<close>

datatype 'a pyval = PInt int | PFloat rat | PObj 'a

datatype dtype = Int64 | Float64 | Object

record 'a series =
  dtype :: dtype
  cells :: "'a pyval option list"

subsection \<open>Conversions between integers and floats\<close>

text \<open>\<^verbatim>\<open>int.bit_length\<close>: the number of binary digits of a positive integer.\<close>

function bit_length :: "int \<Rightarrow> nat" where
  "bit_length n = (if n \<le> 0 then 0 else Suc (bit_length (n div 2)))"
  by auto

termination
  by (relation "measure nat") auto

declare bit_length.simps [simp del]

text \<open>
  The float64 nearest to an integer, ties going to the even significand of 53 bits: the
  conversion of numpy and of Python's \<^verbatim>\<open>float\<close>. The result is an integer again; integers of
  at most 53 binary digits are floats themselves.
\<close>

definition float64_of_int :: "int \<Rightarrow> int" where
  "float64_of_int v =
     (let m = \<bar>v\<bar>; b = bit_length m in
      if b \<le> 53 then v
      else
        let e = b - 53; q = m div 2 ^ e; r = m mod 2 ^ e; h = 2 ^ (e - 1);
            u = (if h < r \<or> (r = h \<and> odd q) then q + 1 else q)
        in sgn v * (u * 2 ^ e))"

text \<open>Truncation towards zero, as \<^verbatim>\<open>int\<close> of a float and the C cast do it.\<close>

definition trunc :: "rat \<Rightarrow> int" where
  "trunc q = (if q < 0 then - \<lfloor>- q\<rfloor> else \<lfloor>q\<rfloor>)"

definition in_int64 :: "int \<Rightarrow> bool" where
  "in_int64 v \<longleftrightarrow> - (2 ^ 63) \<le> v \<and> v < 2 ^ 63"

text \<open>
  The C cast of a float64 array to int64 does not raise: a float beyond the int64 range comes
  out as the least int64 (the result on x86-64).
\<close>

definition int64_of_float :: "rat \<Rightarrow> int" where
  "int64_of_float q = (if in_int64 (trunc q) then trunc q else - (2 ^ 63))"

text \<open>
  One cell cast to \<^verbatim>\<open>float64\<close>, from an \<^verbatim>\<open>int64\<close> or an \<^verbatim>\<open>object\<close> column: an integer is
  rounded (a Python integer beyond the float range raises), a float and the missing value
  stay. An object that is neither is taken to be one that \<^verbatim>\<open>float\<close> and \<^verbatim>\<open>int\<close> reject, as they
  do a string that is no numeral.
\<close>

definition to_float64 :: "'a pyval option \<Rightarrow> error + 'a pyval option" where
  "to_float64 c =
     (case c of
        None \<Rightarrow> Inr None
      | Some (PInt i) \<Rightarrow>
          if \<bar>float64_of_int i\<bar> < 2 ^ 1024 then Inr (Some (PFloat (of_int (float64_of_int i))))
          else Inl OverflowError
      | Some (PFloat q) \<Rightarrow> Inr c
      | Some (PObj x) \<Rightarrow> Inl ValueError)"

text \<open>
  One cell of a \<^verbatim>\<open>float64\<close> column cast to \<^verbatim>\<open>int64\<close>: pandas refuses a missing value, the
  C cast truncates.
\<close>

definition float64_to_int64 :: "'a pyval option \<Rightarrow> error + 'a pyval option" where
  "float64_to_int64 c =
     (case c of
        None \<Rightarrow> Inl ValueError
      | Some (PInt i) \<Rightarrow> Inr (Some (PInt (if in_int64 i then i else - (2 ^ 63))))
      | Some (PFloat q) \<Rightarrow> Inr (Some (PInt (int64_of_float q)))
      | Some (PObj x) \<Rightarrow> Inl ValueError)"

text \<open>
  One cell of an \<^verbatim>\<open>object\<close> column cast to \<^verbatim>\<open>int64\<close>: the Python number is converted
  with \<^verbatim>\<open>int\<close> and must fit.
\<close>

definition object_to_int64 :: "'a pyval option \<Rightarrow> error + 'a pyval option" where
  "object_to_int64 c =
     (case c of
        None \<Rightarrow> Inl ValueError
      | Some (PInt i) \<Rightarrow> if in_int64 i then Inr c else Inl OverflowError
      | Some (PFloat q) \<Rightarrow>
          if in_int64 (trunc q) then Inr (Some (PInt (trunc q))) else Inl OverflowError
      | Some (PObj x) \<Rightarrow> Inl ValueError)"

definition convert_cell :: "dtype \<Rightarrow> dtype \<Rightarrow> 'a pyval option \<Rightarrow> error + 'a pyval option" where
  "convert_cell from to c =
     (if from = to \<or> to = Object then Inr c
      else if to = Float64 then to_float64 c
      else if from = Float64 then float64_to_int64 c
      else object_to_int64 c)"

subsection \<open>Shift, cast and dropna\<close>

text \<open>
  Shifting fills with NaN, so an integer column comes back as a float column and its
  integers as the nearest floats; a column of another dtype keeps dtype and values.
\<close>

definition shifted_dtype :: "dtype \<Rightarrow> dtype" where
  "shifted_dtype t = (if t = Int64 then Float64 else t)"

definition shift_value :: "dtype \<Rightarrow> 'a pyval \<Rightarrow> 'a pyval" where
  "shift_value t v =
     (case v of
        PInt i \<Rightarrow> if t = Int64 then PFloat (of_int (float64_of_int i)) else v
      | _ \<Rightarrow> v)"

text \<open>
  \<^verbatim>\<open>Series.shift(period)\<close>: a positive period moves every cell \<open>period\<close> rows down and fills
  the first rows with the missing value, a negative one moves the cells up, zero copies.
\<close>

definition shift :: "'a series \<Rightarrow> int \<Rightarrow> 'a series" where
  "shift s period =
     (let n = length (cells s);
          vs = map (map_option (shift_value (dtype s))) (cells s) in
      if period = 0 then s
      else if 0 < period then
        \<lparr>dtype = shifted_dtype (dtype s),
         cells = replicate (min (nat period) n) None @ take (n - nat period) vs\<rparr>
      else
        \<lparr>dtype = shifted_dtype (dtype s),
         cells = drop (nat (- period)) vs @ replicate (min (nat (- period)) n) None\<rparr>)"

text \<open>
  \<^verbatim>\<open>Series.astype(t)\<close>: every cell is converted to the target dtype, in row order; the
  series keeps its length.
\<close>

definition astype :: "'a series \<Rightarrow> dtype \<Rightarrow> error + 'a series" where
  "astype s t =
     (case map_values (convert_cell (dtype s) t) (cells s) of
        Inl e \<Rightarrow> Inl e
      | Inr vs \<Rightarrow> Inr \<lparr>dtype = t, cells = vs\<rparr>)"

definition nrows :: "'a series frame \<Rightarrow> nat" where
  "nrows X = (case X of [] \<Rightarrow> 0 | p # _ \<Rightarrow> length (cells (snd p)))"

definition wf_frame :: "'a series frame \<Rightarrow> bool" where
  "wf_frame X \<longleftrightarrow>
     distinct (columns X) \<and> list_all (\<lambda>p. length (cells (snd p)) = nrows X) X"

text \<open>\<^verbatim>\<open>X.dropna(inplace=True)\<close>: a row stays if no column is missing there.\<close>

definition row_complete :: "'a series frame \<Rightarrow> nat \<Rightarrow> bool" where
  "row_complete X i = list_all (\<lambda>p. cells (snd p) ! i \<noteq> None) X"

definition dropna :: "'a series frame \<Rightarrow> 'a series frame" where
  "dropna X =
     (let keep = filter (row_complete X) [0..<nrows X] in
      map (\<lambda>p. (fst p, (snd p)\<lparr>cells := map (\<lambda>i. cells (snd p) ! i) keep\<rparr>)) X)"

section \<open>Decimal rendering and generated names\<close>

text \<open>\<^verbatim>\<open>"_LAG-{}".format(lag)\<close> renders the integer in decimal.\<close>

definition digit_char :: "nat \<Rightarrow> char" where
  "digit_char d = ''0123456789'' ! d"

fun str_nat :: "nat \<Rightarrow> string" where
  "str_nat n = (if n < 10 then [digit_char n] else str_nat (n div 10) @ [digit_char (n mod 10)])"

declare str_nat.simps [simp del]

definition str_int :: "int \<Rightarrow> string" where
  "str_int i = (if i < 0 then CHR ''-'' # str_nat (nat (- i)) else str_nat (nat i))"

definition lag_name :: "string \<Rightarrow> int \<Rightarrow> string" where
  "lag_name original_column lag = original_column @ ''_LAG-'' @ str_int lag"

section \<open>The lag transformer\<close>

record lag =
  n_periods :: int
  shift_columns :: "string list option"
  drop_na_rows :: bool
  drop_original_columns :: bool
  only_one_column_for_periods :: bool
  new_columns :: "string list"
  column_dtype_map :: "(string \<times> dtype) list"

text \<open>\<^verbatim>\<open>Lag.__init__\<close>: the assertion comes first, the two trackers start empty.\<close>

definition Lag_init :: "int \<Rightarrow> string list option \<Rightarrow> bool \<Rightarrow> bool \<Rightarrow> bool \<Rightarrow> error + lag" where
  "Lag_init n cols dna doc one =
     (if 0 < n then
        Inr \<lparr>n_periods = n, shift_columns = cols, drop_na_rows = dna,
             drop_original_columns = doc, only_one_column_for_periods = one,
             new_columns = [], column_dtype_map = []\<rparr>
      else Inl AssertionError)"

text \<open>\<^verbatim>\<open>Lag.fit\<close> returns the instance and never raises.\<close>

definition fit :: "lag \<Rightarrow> 'c frame \<Rightarrow> lag" where
  "fit st X = (if shift_columns st = None then st\<lparr>shift_columns := Some (columns X)\<rparr> else st)"

text \<open>
  Python mutates the instance and the frame in place, so an exception leaves both as they
  were when it was raised: a raise carries the state and the frame of that moment.
\<close>

type_synonym 'a raised = "error \<times> lag \<times> 'a series frame"
type_synonym 'a outcome = "'a raised + lag \<times> 'a series frame"

text \<open>
  \<^verbatim>\<open>Lag._generate_lag_column_and_update_dtype_map\<close>: the assertion, the append to
  \<^verbatim>\<open>new_columns\<close>, then the read of the source column (which may raise), the dict update
  and the shifted series.
\<close>

definition generate_lag_column_and_update_dtype_map ::
  "lag \<Rightarrow> string \<Rightarrow> string \<Rightarrow> int \<Rightarrow> 'a series frame \<Rightarrow> (error \<times> lag) + (lag \<times> 'a series)" where
  "generate_lag_column_and_update_dtype_map st original_col_name new_column_name period X =
     (if \<not> 0 < period then Inl (AssertionError, st)
      else
        let st1 = st\<lparr>new_columns := new_columns st @ [new_column_name]\<rparr> in
        case loc_get X original_col_name of
          Inl e \<Rightarrow> Inl (e, st1)
        | Inr s \<Rightarrow>
            Inr (st1\<lparr>column_dtype_map :=
                      AList.update new_column_name (dtype s) (column_dtype_map st1)\<rparr>,
                 shift s period))"

text \<open>The body of both branches of the loop in \<^verbatim>\<open>Lag.transform\<close>, for one column and one lag.\<close>

definition lag_step :: "lag \<Rightarrow> 'a series frame \<Rightarrow> string \<Rightarrow> int \<Rightarrow> 'a outcome" where
  "lag_step st X original_column lag =
     (let new_column_name = lag_name original_column lag in
      case generate_lag_column_and_update_dtype_map st original_column new_column_name lag X of
        Inl (e, st') \<Rightarrow> Inl (e, st', X)
      | Inr (st', s) \<Rightarrow> Inr (st', loc_set X new_column_name s))"

text \<open>
  The lags of one source column: \<^verbatim>\<open>range(1, n_periods + 1)\<close> when one column per period
  step is generated, \<^verbatim>\<open>n_periods\<close> alone otherwise.
\<close>

definition lag_periods :: "lag \<Rightarrow> int list" where
  "lag_periods st =
     (if only_one_column_for_periods st then [n_periods st] else [1..n_periods st])"

fun generate_lags :: "lag \<Rightarrow> 'a series frame \<Rightarrow> string \<Rightarrow> int list \<Rightarrow> 'a outcome" where
  "generate_lags st X c [] = Inr (st, X)"
| "generate_lags st X c (k # ks) =
     (case lag_step st X c k of
        Inl r \<Rightarrow> Inl r
      | Inr (st', X') \<Rightarrow> generate_lags st' X' c ks)"

fun generate_columns :: "lag \<Rightarrow> 'a series frame \<Rightarrow> string list \<Rightarrow> 'a outcome" where
  "generate_columns st X [] = Inr (st, X)"
| "generate_columns st X (c # cs) =
     (case generate_lags st X c (lag_periods st) of
        Inl r \<Rightarrow> Inl r
      | Inr (st', X') \<Rightarrow> generate_columns st' X' cs)"

text \<open>
  \<^verbatim>\<open>Lag._cast_cols_dtypes_to_original\<close>: the entries of the dict in insertion order, each
  column read, cast and written back.
\<close>

fun cast_cols_dtypes_to_original ::
  "(string \<times> dtype) list \<Rightarrow> 'a series frame \<Rightarrow> (error \<times> 'a series frame) + 'a series frame" where
  "cast_cols_dtypes_to_original [] X = Inr X"
| "cast_cols_dtypes_to_original ((col, t) # m) X =
     (case loc_get X col of
        Inl e \<Rightarrow> Inl (e, X)
      | Inr s \<Rightarrow>
          (case astype s t of
             Inl e \<Rightarrow> Inl (e, X)
           | Inr s' \<Rightarrow> cast_cols_dtypes_to_original m (loc_set X col s')))"

text \<open>The two steps after the loop in \<^verbatim>\<open>Lag.transform\<close>.\<close>

definition drop_na_and_cast :: "lag \<Rightarrow> 'a series frame \<Rightarrow> 'a outcome" where
  "drop_na_and_cast st X =
     (if drop_na_rows st then
        (case cast_cols_dtypes_to_original (column_dtype_map st) (dropna X) of
           Inl (e, X') \<Rightarrow> Inl (e, st, X')
         | Inr X' \<Rightarrow> Inr (st, X'))
      else Inr (st, X))"

definition drop_originals :: "lag \<Rightarrow> 'a series frame \<Rightarrow> string list \<Rightarrow> 'a outcome" where
  "drop_originals st X cs =
     (if drop_original_columns st then
        (case drop_columns X cs of
           Inl e \<Rightarrow> Inl (e, st, X)
         | Inr X' \<Rightarrow> Inr (st, X'))
      else Inr (st, X))"

definition transform :: "lag \<Rightarrow> 'a series frame \<Rightarrow> 'a outcome" where
  "transform st X =
     (case shift_columns st of
        None \<Rightarrow> Inl (TypeError, st, X)
      | Some cs \<Rightarrow>
          (case generate_columns st X cs of
             Inl r \<Rightarrow> Inl r
           | Inr (st1, X1) \<Rightarrow>
               (case drop_na_and_cast st1 X1 of
                  Inl r \<Rightarrow> Inl r
                | Inr (st2, X2) \<Rightarrow> drop_originals st2 X2 cs)))"

text \<open>
  A caller's later calls on one instance: each call is a fit or a transform on some frame;
  the instance a call leaves behind (also when it raised) is the one the next call sees.
\<close>

datatype 'a call = Fit "'a series frame" | Transform "'a series frame"

definition state_after :: "'a outcome \<Rightarrow> lag" where
  "state_after r = (case r of Inl (e, st, X) \<Rightarrow> st | Inr (st, X) \<Rightarrow> st)"

definition raised_error :: "'a outcome \<Rightarrow> error option" where
  "raised_error r = (case r of Inl (e, st, X) \<Rightarrow> Some e | Inr (st, X) \<Rightarrow> None)"

fun run_calls :: "lag \<Rightarrow> 'a call list \<Rightarrow> lag \<times> error option list" where
  "run_calls st [] = (st, [])"
| "run_calls st (Fit X # cs) =
     (let (st', es) = run_calls (fit st X) cs in (st', None # es))"
| "run_calls st (Transform X # cs) =
     (let r = transform st X; (st', es) = run_calls (state_after r) cs
      in (st', raised_error r # es))"

section \<open>The datetime feature extractor\<close>

text \<open>
  The attributes of a pandas \<^verbatim>\<open>Timestamp\<close> that the extraction methods read. A cell of a
  frame handed to the extractor is a timestamp, the missing timestamp \<open>NaT\<close> (whose
  attributes are the float NaN), or one of the values the methods produce, which have no
  timestamp attributes.
\<close>

record timestamp =
  year :: int
  month :: int
  day :: int
  dayofyear :: int
  dayofweek :: int
  hour :: int
  minute :: int
  second :: int

datatype dcell = Stamp timestamp | NaT | IntV int | BoolV bool | NaN

definition attribute :: "(timestamp \<Rightarrow> int) \<Rightarrow> dcell \<Rightarrow> error + dcell" where
  "attribute f dt =
     (case dt of Stamp t \<Rightarrow> Inr (IntV (f t)) | NaT \<Rightarrow> Inr NaN | _ \<Rightarrow> Inl AttributeError)"

definition get_year :: "dcell \<Rightarrow> error + dcell" where
  "get_year = attribute year"

definition get_month :: "dcell \<Rightarrow> error + dcell" where
  "get_month = attribute month"

definition get_day_of_month :: "dcell \<Rightarrow> error + dcell" where
  "get_day_of_month = attribute day"

definition get_day_of_year :: "dcell \<Rightarrow> error + dcell" where
  "get_day_of_year = attribute dayofyear"

definition get_day_of_week :: "dcell \<Rightarrow> error + dcell" where
  "get_day_of_week = attribute dayofweek"

definition get_hour :: "dcell \<Rightarrow> error + dcell" where
  "get_hour = attribute hour"

definition get_minute :: "dcell \<Rightarrow> error + dcell" where
  "get_minute = attribute minute"

definition get_second :: "dcell \<Rightarrow> error + dcell" where
  "get_second = attribute second"

text \<open>The \<^verbatim>\<open>match\<close> of \<^verbatim>\<open>_get_is_weekend\<close>: 5 and 6 give true, anything else (NaN too) false.\<close>

definition get_is_weekend :: "dcell \<Rightarrow> error + dcell" where
  "get_is_weekend dt =
     (case dt of
        Stamp t \<Rightarrow>
          Inr (BoolV (if dayofweek t = 5 then True else if dayofweek t = 6 then True else False))
      | NaT \<Rightarrow> Inr (BoolV False)
      | _ \<Rightarrow> Inl AttributeError)"

type_synonym extractor = "dcell \<Rightarrow> error + dcell"

record date_time_features =
  dt_columns :: "string list"
  exclude_features :: "string list option"
  dt_drop_original_columns :: bool
  included_features_and_methods_map :: "(string \<times> extractor) list"

text \<open>The dict literal of \<^verbatim>\<open>DateTimeFeatures.__init__\<close>, in its insertion order.\<close>

definition catalog :: "(string \<times> extractor) list" where
  "catalog =
     [(''year'', get_year),
      (''month'', get_month),
      (''day-of-month'', get_day_of_month),
      (''day-of-year'', get_day_of_year),
      (''day-of-week'', get_day_of_week),
      (''is-weekend'', get_is_weekend),
      (''hour'', get_hour),
      (''minute'', get_minute),
      (''second'', get_second)]"

text \<open>
  \<^verbatim>\<open>handle_excluded_features\<close>: the first loop asserts every entry against the keys of the
  dict and collects it, the second pops the collected keys; \<^verbatim>\<open>dict.pop\<close> of a key that is
  no longer there raises \<open>KeyError\<close>.
\<close>

fun collect_features_to_pop ::
  "(string \<times> extractor) list \<Rightarrow> string list \<Rightarrow> string list \<Rightarrow> error + string list" where
  "collect_features_to_pop m [] features_to_pop = Inr features_to_pop"
| "collect_features_to_pop m (feature # fs) features_to_pop =
     (if feature \<in> set (map fst m)
      then collect_features_to_pop m fs (features_to_pop @ [feature])
      else Inl AssertionError)"

fun pop_features :: "(string \<times> extractor) list \<Rightarrow> string list \<Rightarrow> error + (string \<times> extractor) list" where
  "pop_features m [] = Inr m"
| "pop_features m (feature # fs) =
     (if feature \<in> set (map fst m) then pop_features (AList.delete feature m) fs
      else Inl KeyError)"

definition handle_excluded_features :: "date_time_features \<Rightarrow> error + date_time_features" where
  "handle_excluded_features dtf =
     (case exclude_features dtf of
        None \<Rightarrow> Inr dtf
      | Some fs \<Rightarrow>
          (case collect_features_to_pop (included_features_and_methods_map dtf) fs [] of
             Inl e \<Rightarrow> Inl e
           | Inr features_to_pop \<Rightarrow>
               (case pop_features (included_features_and_methods_map dtf) features_to_pop of
                  Inl e \<Rightarrow> Inl e
                | Inr m \<Rightarrow> Inr (dtf\<lparr>included_features_and_methods_map := m\<rparr>))))"

definition DateTimeFeatures_init ::
  "string list \<Rightarrow> string list option \<Rightarrow> bool \<Rightarrow> error + date_time_features" where
  "DateTimeFeatures_init cols excl dropc =
     handle_excluded_features
       \<lparr>dt_columns = cols, exclude_features = excl, dt_drop_original_columns = dropc,
        included_features_and_methods_map = catalog\<rparr>"

definition dt_fit :: "date_time_features \<Rightarrow> dcell list frame \<Rightarrow> date_time_features" where
  "dt_fit dtf X = dtf"

text \<open>\<^verbatim>\<open>str.upper\<close> on the ASCII letters, which is all a catalog key has.\<close>

definition upper_char :: "char \<Rightarrow> char" where
  "upper_char c =
     (case map_of (zip ''abcdefghijklmnopqrstuvwxyz'' ''ABCDEFGHIJKLMNOPQRSTUVWXYZ'') c of
        None \<Rightarrow> c
      | Some u \<Rightarrow> u)"

definition upper :: "string \<Rightarrow> string" where
  "upper s = map upper_char s"

definition get_new_feature_name :: "string \<Rightarrow> string \<Rightarrow> string" where
  "get_new_feature_name original_column_name new_feature_name =
     original_column_name @ ''_'' @ upper new_feature_name"

text \<open>
  \<^verbatim>\<open>Series.map\<close> is \<open>map_values\<close>: the extraction function on every cell in row order; the
  first raise ends it.
\<close>

type_synonym dt_outcome = "(error \<times> dcell list frame) + dcell list frame"

fun generate_features :: "dcell list frame \<Rightarrow> string \<Rightarrow> (string \<times> extractor) list \<Rightarrow> dt_outcome" where
  "generate_features X original_column [] = Inr X"
| "generate_features X original_column ((new_feature_name, getter) # ms) =
     (let new_column_name = get_new_feature_name original_column new_feature_name in
      case loc_get X original_column of
        Inl e \<Rightarrow> Inl (e, X)
      | Inr s \<Rightarrow>
          (case map_values getter s of
             Inl e \<Rightarrow> Inl (e, X)
           | Inr s' \<Rightarrow> generate_features (loc_set X new_column_name s') original_column ms))"

fun dt_generate_columns ::
  "dcell list frame \<Rightarrow> string list \<Rightarrow> (string \<times> extractor) list \<Rightarrow> dt_outcome" where
  "dt_generate_columns X [] ms = Inr X"
| "dt_generate_columns X (c # cs) ms =
     (case generate_features X c ms of
        Inl r \<Rightarrow> Inl r
      | Inr X' \<Rightarrow> dt_generate_columns X' cs ms)"

definition dt_transform :: "date_time_features \<Rightarrow> dcell list frame \<Rightarrow> dt_outcome" where
  "dt_transform dtf X =
     (case dt_generate_columns X (dt_columns dtf) (included_features_and_methods_map dtf) of
        Inl r \<Rightarrow> Inl r
      | Inr X' \<Rightarrow>
          if dt_drop_original_columns dtf then
            (case drop_columns X' (dt_columns dtf) of
               Inl e \<Rightarrow> Inl (e, X')
             | Inr X'' \<Rightarrow> Inr X'')
          else Inr X')"

section \<open>Auxiliary notions\<close>

text \<open>The configuration of a lag transformer, which no call changes.\<close>

definition same_config :: "lag \<Rightarrow> lag \<Rightarrow> bool" where
  "same_config st st' \<longleftrightarrow>
     n_periods st' = n_periods st \<and> shift_columns st' = shift_columns st \<and>
     drop_na_rows st' = drop_na_rows st \<and>
     drop_original_columns st' = drop_original_columns st \<and>
     only_one_column_for_periods st' = only_one_column_for_periods st"

text \<open>The names one pass of the loop generates, in the order of generation.\<close>

definition generated_names :: "lag \<Rightarrow> string list \<Rightarrow> string list" where
  "generated_names st cs = concat (map (\<lambda>c. map (lag_name c) (lag_periods st)) cs)"

text \<open>
  The two nested loops of \<^verbatim>\<open>Lag.transform\<close> run the loop body over a list of pairs of a
  source column and a lag; \<open>generate_columns_steps\<close> below proves that \<open>generate_columns\<close> is
  \<open>run_steps\<close> on \<open>lag_plan\<close>.
\<close>

fun run_steps :: "lag \<Rightarrow> 'a series frame \<Rightarrow> (string \<times> int) list \<Rightarrow> 'a outcome" where
  "run_steps st X [] = Inr (st, X)"
| "run_steps st X ((c, k) # ps) =
     (case lag_step st X c k of
        Inl r \<Rightarrow> Inl r
      | Inr (st', X') \<Rightarrow> run_steps st' X' ps)"

definition lag_plan :: "lag \<Rightarrow> string list \<Rightarrow> (string \<times> int) list" where
  "lag_plan st cs = concat (map (\<lambda>c. map (Pair c) (lag_periods st)) cs)"

definition step_name :: "string \<times> int \<Rightarrow> string" where
  "step_name p = lag_name (fst p) (snd p)"

text \<open>The frame a call leaves behind, whether it returned or raised.\<close>

definition frame_after :: "'a outcome \<Rightarrow> 'a series frame" where
  "frame_after r = (case r of Inl (e, st, X) \<Rightarrow> X | Inr (st, X) \<Rightarrow> X)"

text \<open>The rows \<open>dropna\<close> keeps: those in which no column of the frame is missing.\<close>

definition kept_rows :: "'a series frame \<Rightarrow> nat list" where
  "kept_rows X = filter (row_complete X) [0..<nrows X]"

definition keep_rows :: "'a series frame \<Rightarrow> 'a series \<Rightarrow> 'a series" where
  "keep_rows X s = s\<lparr>cells := map (\<lambda>i. cells s ! i) (kept_rows X)\<rparr>"

text \<open>
  Python's \<^verbatim>\<open>==\<close> on two values: an integer and a float are equal when they are the same
  number. Two cells hold the same value when both are missing or their values are equal.
\<close>

fun value_eq :: "'a pyval \<Rightarrow> 'a pyval \<Rightarrow> bool" where
  "value_eq (PInt i) (PInt j) = (i = j)"
| "value_eq (PInt i) (PFloat q) = (of_int i = q)"
| "value_eq (PFloat q) (PInt j) = (q = of_int j)"
| "value_eq (PFloat q) (PFloat r) = (q = r)"
| "value_eq (PObj x) (PObj y) = (x = y)"
| "value_eq (PInt i) (PObj y) = False"
| "value_eq (PFloat q) (PObj y) = False"
| "value_eq (PObj x) (PInt j) = False"
| "value_eq (PObj x) (PFloat r) = False"

fun same_cell :: "'a pyval option \<Rightarrow> 'a pyval option \<Rightarrow> bool" where
  "same_cell None None = True"
| "same_cell (Some v) (Some w) = value_eq v w"
| "same_cell None (Some w) = False"
| "same_cell (Some v) None = False"

text \<open>
  The excluded feature kinds as a list, and the names the extractor generates for one
  datetime column and for a list of them, in the order of generation.
\<close>

definition excluded :: "string list option \<Rightarrow> string list" where
  "excluded excl = (case excl of None \<Rightarrow> [] | Some fs \<Rightarrow> fs)"

definition feature_names :: "string \<Rightarrow> (string \<times> extractor) list \<Rightarrow> string list" where
  "feature_names d ms = map (\<lambda>p. get_new_feature_name d (fst p)) ms"

definition all_feature_names :: "string list \<Rightarrow> (string \<times> extractor) list \<Rightarrow> string list" where
  "all_feature_names cs ms = concat (map (\<lambda>d. feature_names d ms) cs)"

section \<open>Example frames and instances\<close>

text \<open>
  The frame and the transformer of the source's \<^verbatim>\<open>lag_test\<close>, the frame that call returns,
  and two variants of the transformer: one that has been used before on a frame whose
  \<open>x1\<close> was an object column, one that generates a column per period step and drops the
  rows with missing values.
\<close>

definition lag_test_frame :: "string series frame" where
  "lag_test_frame =
     [(''date'', \<lparr>dtype = Object,
          cells = [Some (PObj ''2022-09-18''), Some (PObj ''2022-09-19''),
                   Some (PObj ''2022-09-20''), Some (PObj ''2022-09-21''),
                   Some (PObj ''2022-09-22'')]\<rparr>),
      (''x1'', \<lparr>dtype = Int64,
          cells = [Some (PInt 1), Some (PInt 2), Some (PInt 3), Some (PInt 4), Some (PInt 5)]\<rparr>),
      (''x2'', \<lparr>dtype = Int64,
          cells = [Some (PInt 6), Some (PInt 7), Some (PInt 8), Some (PInt 9), Some (PInt 10)]\<rparr>)]"

definition lag_test_transformer :: lag where
  "lag_test_transformer =
     \<lparr>n_periods = 2, shift_columns = Some [''x1'', ''x2''], drop_na_rows = False,
      drop_original_columns = False, only_one_column_for_periods = True,
      new_columns = [], column_dtype_map = []\<rparr>"

definition lag_test_result :: "string series frame" where
  "lag_test_result =
     lag_test_frame @
     [(''x1_LAG-2'', \<lparr>dtype = Float64,
          cells = [None, None, Some (PFloat 1), Some (PFloat 2), Some (PFloat 3)]\<rparr>),
      (''x2_LAG-2'', \<lparr>dtype = Float64,
          cells = [None, None, Some (PFloat 6), Some (PFloat 7), Some (PFloat 8)]\<rparr>)]"

definition used_transformer :: lag where
  "used_transformer =
     lag_test_transformer
       \<lparr>new_columns := [''x1_LAG-2'', ''x2_LAG-2''],
        column_dtype_map := [(''x1_LAG-2'', Object), (''x2_LAG-2'', Int64)]\<rparr>"

definition dropping_transformer :: lag where
  "dropping_transformer =
     lag_test_transformer\<lparr>drop_na_rows := True, only_one_column_for_periods := False\<rparr>"

text \<open>
  A frame that already has columns named like generated ones, with a transformer whose
  source columns are listed in an order that reads a column after it was overwritten and
  another one before it is overwritten, and the frame that call returns.
\<close>

definition chained_frame :: "string series frame" where
  "chained_frame =
     [(''a'', \<lparr>dtype = Int64, cells = [Some (PInt 1), Some (PInt 2), Some (PInt 3)]\<rparr>),
      (''a_LAG-1'', \<lparr>dtype = Int64, cells = [Some (PInt 7), Some (PInt 8), Some (PInt 9)]\<rparr>),
      (''a_LAG-1_LAG-1'', \<lparr>dtype = Int64,
          cells = [Some (PInt 4), Some (PInt 5), Some (PInt 6)]\<rparr>)]"

definition chained_transformer :: lag where
  "chained_transformer =
     \<lparr>n_periods = 1, shift_columns = Some [''a'', ''a_LAG-1_LAG-1'', ''a_LAG-1''],
      drop_na_rows = False, drop_original_columns = False,
      only_one_column_for_periods = False, new_columns = [], column_dtype_map = []\<rparr>"

definition chained_result :: "string series frame" where
  "chained_result =
     [(''a'', \<lparr>dtype = Int64, cells = [Some (PInt 1), Some (PInt 2), Some (PInt 3)]\<rparr>),
      (''a_LAG-1'', \<lparr>dtype = Float64, cells = [None, Some (PFloat 1), Some (PFloat 2)]\<rparr>),
      (''a_LAG-1_LAG-1'', \<lparr>dtype = Float64, cells = [None, None, Some (PFloat 1)]\<rparr>),
      (''a_LAG-1_LAG-1_LAG-1'', \<lparr>dtype = Float64,
          cells = [None, Some (PFloat 4), Some (PFloat 5)]\<rparr>)]"

text \<open>
  A frame with a column \<open>x\<close> and a column named \<open>x_LAG-1\<close>, and the transformers with one
  period, given source columns (or none, to be captured by \<open>fit\<close>) and a given
  \<open>drop_original_columns\<close>.
\<close>

definition lagged_frame :: "string series frame" where
  "lagged_frame =
     [(''x'', \<lparr>dtype = Int64, cells = [Some (PInt 1), Some (PInt 2), Some (PInt 3)]\<rparr>),
      (''x_LAG-1'', \<lparr>dtype = Int64, cells = [Some (PInt 7), Some (PInt 8), Some (PInt 9)]\<rparr>)]"

definition lag_one :: "string list option \<Rightarrow> bool \<Rightarrow> lag" where
  "lag_one cols doc =
     \<lparr>n_periods = 1, shift_columns = cols, drop_na_rows = False,
      drop_original_columns = doc, only_one_column_for_periods = False,
      new_columns = [], column_dtype_map = []\<rparr>"

text \<open>
  The transformer with one period and default columns that drops the rows with missing
  values, and the frame it returns, once fitted, on the frame with \<open>x\<close> and \<open>x_LAG-1\<close>.
\<close>

definition lag_one_dropna :: lag where
  "lag_one_dropna = (lag_one None False)\<lparr>drop_na_rows := True\<rparr>"

definition lagged_dropna_result :: "string series frame" where
  "lagged_dropna_result =
     [(''x'', \<lparr>dtype = Int64, cells = [Some (PInt 3)]\<rparr>),
      (''x_LAG-1'', \<lparr>dtype = Int64, cells = [Some (PInt 2)]\<rparr>),
      (''x_LAG-1_LAG-1'', \<lparr>dtype = Float64, cells = [Some (PFloat 1)]\<rparr>)]"

text \<open>
  A frame whose integer column has values that no float64 holds: \<open>2\<^sup>5\<^sup>3 + 1\<close> and the
  greatest int64.
\<close>

definition big_frame :: "string series frame" where
  "big_frame =
     [(''x'', \<lparr>dtype = Int64,
          cells = [Some (PInt 9007199254740993), Some (PInt 9223372036854775807),
                   Some (PInt 5)]\<rparr>)]"

text \<open>
  The first timestamps of the two columns of the example frame at the end of the source of
  the extractor, a frame of these two rows, and the extractor constructed there.
\<close>

definition monday :: timestamp where
  "monday = \<lparr>year = 1994, month = 8, day = 15, dayofyear = 227, dayofweek = 0,
             hour = 0, minute = 0, second = 0\<rparr>"

definition thursday :: timestamp where
  "thursday = \<lparr>year = 2021, month = 7, day = 22, dayofyear = 203, dayofweek = 3,
               hour = 0, minute = 0, second = 0\<rparr>"

definition dt_frame :: "dcell list frame" where
  "dt_frame = [(''dt1'', [Stamp monday]), (''dt2'', [Stamp thursday])]"

definition main_extractor :: date_time_features where
  "main_extractor =
     \<lparr>dt_columns = [''dt1'', ''dt2''], exclude_features = Some [''is-weekend'', ''second''],
      dt_drop_original_columns = False,
      included_features_and_methods_map =
        [(''year'', get_year), (''month'', get_month), (''day-of-month'', get_day_of_month),
         (''day-of-year'', get_day_of_year), (''day-of-week'', get_day_of_week),
         (''hour'', get_hour), (''minute'', get_minute)]\<rparr>"

section \<open>Conversions, shifts and casts\<close>

lemma map_values_error:
  "map_values g vs = Inl e \<Longrightarrow> \<exists>v \<in> set vs. g v = Inl e"
  by (induction vs arbitrary: e) (auto split: sum.splits)

lemma map_values_Inr:
  "map_values g vs = Inr ws \<Longrightarrow>
   length ws = length vs \<and> (\<forall>i < length vs. g (vs ! i) = Inr (ws ! i))"
proof (induction vs arbitrary: ws)
  case Nil
  then show ?case by simp
next
  case (Cons v vs)
  from Cons.prems obtain w ws' where w: "g v = Inr w" and ws': "map_values g vs = Inr ws'"
    and ws: "ws = w # ws'"
    by (auto split: sum.splits)
  from Cons.IH [OF ws'] have l: "length ws' = length vs"
    and n: "\<And>i. i < length vs \<Longrightarrow> g (vs ! i) = Inr (ws' ! i)" by auto
  have "g ((v # vs) ! i) = Inr (ws ! i)" if "i < length (v # vs)" for i
    using that w n [of "i - 1"] ws by (cases i) auto
  with l ws show ?case by simp
qed

lemma bit_length_le: "n < 2 ^ k \<Longrightarrow> bit_length n \<le> k"
proof (induction k arbitrary: n)
  case 0
  then show ?case by (simp add: bit_length.simps)
next
  case (Suc k)
  from Suc.prems have "n div 2 < 2 ^ k" by simp
  from Suc.IH [OF this] show ?case by (subst bit_length.simps) simp
qed

lemma float64_of_int_small: "\<bar>v\<bar> < 2 ^ 53 \<Longrightarrow> float64_of_int v = v"
proof -
  assume a: "\<bar>v\<bar> < 2 ^ 53"
  from bit_length_le [OF a] show ?thesis by (simp add: float64_of_int_def Let_def)
qed

lemma float64_of_int_pow53:
  "float64_of_int 9007199254740992 = 9007199254740992"
  "float64_of_int (- 9007199254740992) = - 9007199254740992"
  by code_simp+

lemma float64_of_int_exact: "\<bar>v\<bar> \<le> 2 ^ 53 \<Longrightarrow> float64_of_int v = v"
proof -
  assume "\<bar>v\<bar> \<le> 2 ^ 53"
  then consider "\<bar>v\<bar> < 2 ^ 53" | "v = 2 ^ 53" | "v = - (2 ^ 53)" by linarith
  then show ?thesis
    by cases (simp_all add: float64_of_int_small float64_of_int_pow53)
qed

lemma float64_of_int_rounds:
  "float64_of_int 9007199254740993 = 9007199254740992"
  "float64_of_int 9223372036854775807 = 9223372036854775808"
  by code_simp+

lemma int64_of_float_wraps:
  "int64_of_float 9223372036854775808 = - 9223372036854775808"
  by (simp add: int64_of_float_def trunc_def in_int64_def)

lemma trunc_of_int [simp]: "trunc (of_int v) = v"
  by (simp add: trunc_def)

lemma int64_of_float_of_int: "in_int64 v \<Longrightarrow> int64_of_float (of_int v) = v"
  by (simp add: int64_of_float_def)

lemma convert_cell_error:
  "convert_cell a b c = Inl e \<Longrightarrow> e = ValueError \<or> e = OverflowError"
  by (auto simp: convert_cell_def to_float64_def float64_to_int64_def object_to_int64_def
           split: if_splits option.splits pyval.splits)

lemma convert_cell_Some:
  "convert_cell a b c = Inr c' \<Longrightarrow> c \<noteq> None \<Longrightarrow> c' \<noteq> None"
  by (auto simp: convert_cell_def to_float64_def float64_to_int64_def object_to_int64_def
           split: if_splits option.splits pyval.splits)

lemma astype_error: "astype s t = Inl e \<Longrightarrow> e = ValueError \<or> e = OverflowError"
  by (auto simp: astype_def split: sum.splits dest!: map_values_error dest: convert_cell_error)

lemma astype_Inr:
  "astype s t = Inr s' \<Longrightarrow>
   dtype s' = t \<and> length (cells s') = length (cells s) \<and>
   (\<forall>i < length (cells s). convert_cell (dtype s) t (cells s ! i) = Inr (cells s' ! i))"
  by (auto simp: astype_def split: sum.splits dest: map_values_Inr)

lemma astype_no_missing:
  assumes "astype s t = Inr s'" and "None \<notin> set (cells s)"
  shows "None \<notin> set (cells s')"
proof
  assume "None \<in> set (cells s')"
  then obtain i where i: "i < length (cells s')" and n: "cells s' ! i = None"
    by (auto simp: in_set_conv_nth)
  from astype_Inr [OF assms(1)] i
  have c: "convert_cell (dtype s) t (cells s ! i) = Inr (cells s' ! i)" and l: "i < length (cells s)"
    by auto
  from assms(2) l have "cells s ! i \<noteq> None" by (metis nth_mem)
  from convert_cell_Some [OF c this] n show False by simp
qed

lemma astype_same: "astype s (dtype s) = Inr s"
proof -
  have "map_values (convert_cell t t) vs = Inr vs" for t and vs :: "'a pyval option list"
    by (induction vs) (simp_all add: convert_cell_def)
  then show ?thesis by (simp add: astype_def)
qed

lemma length_shift: "length (cells (shift s k)) = length (cells s)"
  by (auto simp: shift_def Let_def)

lemma dtype_shift: "k \<noteq> 0 \<Longrightarrow> dtype (shift s k) = shifted_dtype (dtype s)"
  by (simp add: shift_def Let_def)

lemma cells_shift_nth:
  assumes "0 < k" and "i < length (cells s)"
  shows "cells (shift s k) ! i =
         (if i < nat k then None else map_option (shift_value (dtype s)) (cells s ! (i - nat k)))"
proof -
  let ?n = "length (cells s)"
  let ?vs = "map (map_option (shift_value (dtype s))) (cells s)"
  from assms have c: "cells (shift s k) = replicate (min (nat k) ?n) None @ take (?n - nat k) ?vs"
    by (simp add: shift_def Let_def)
  show ?thesis
  proof (cases "i < nat k")
    case True
    with assms c show ?thesis by (simp add: nth_append)
  next
    case False
    with assms have "i - nat k < ?n - nat k" "i - nat k < ?n" "min (nat k) ?n = nat k" by auto
    with False assms c show ?thesis by (simp add: nth_append)
  qed
qed

section \<open>The configuration is constant and the period check never fires\<close>

lemma same_config_refl: "same_config st st"
  by (simp add: same_config_def)

lemma same_config_trans: "same_config a b \<Longrightarrow> same_config b c \<Longrightarrow> same_config a c"
  by (simp add: same_config_def)

lemma lag_periods_cong: "same_config st st' \<Longrightarrow> lag_periods st' = lag_periods st"
  by (simp add: same_config_def lag_periods_def)

lemma lag_step_config: "same_config st (state_after (lag_step st X c k))"
  by (auto simp: lag_step_def generate_lag_column_and_update_dtype_map_def state_after_def
      same_config_def Let_def loc_get_def split: option.splits)

lemma lag_step_error:
  "0 < k \<Longrightarrow> raised_error (lag_step st X c k) \<noteq> Some AssertionError"
  by (auto simp: lag_step_def generate_lag_column_and_update_dtype_map_def raised_error_def
      Let_def loc_get_def split: option.splits)

lemma generate_lags_config: "same_config st (state_after (generate_lags st X c ks))"
proof (induction ks arbitrary: st X)
  case Nil
  show ?case by (simp add: state_after_def same_config_refl)
next
  case (Cons k ks)
  show ?case
  proof (cases "lag_step st X c k")
    case (Inl r)
    with lag_step_config [of st X c k] show ?thesis by simp
  next
    case (Inr p)
    obtain st' X' where p: "p = (st', X')" by (cases p)
    from Inr p lag_step_config [of st X c k] have "same_config st st'"
      by (simp add: state_after_def)
    with Cons.IH [of st' X'] Inr p show ?thesis
      by (auto intro: same_config_trans)
  qed
qed

lemma generate_lags_error:
  "\<forall>k \<in> set ks. 0 < k \<Longrightarrow> raised_error (generate_lags st X c ks) \<noteq> Some AssertionError"
proof (induction ks arbitrary: st X)
  case Nil
  show ?case by (simp add: raised_error_def)
next
  case (Cons k ks)
  show ?case
  proof (cases "lag_step st X c k")
    case (Inl r)
    with lag_step_error [of k st X c] Cons.prems show ?thesis by simp
  next
    case (Inr p)
    obtain st' X' where p: "p = (st', X')" by (cases p)
    with Cons.IH [of st' X'] Cons.prems Inr show ?thesis by simp
  qed
qed

lemma lag_periods_pos: "0 < n_periods st \<Longrightarrow> \<forall>k \<in> set (lag_periods st). 0 < k"
  by (auto simp: lag_periods_def)

lemma generate_columns_config: "same_config st (state_after (generate_columns st X cs))"
proof (induction cs arbitrary: st X)
  case Nil
  show ?case by (simp add: state_after_def same_config_refl)
next
  case (Cons c cs)
  show ?case
  proof (cases "generate_lags st X c (lag_periods st)")
    case (Inl r)
    with generate_lags_config [of st X c "lag_periods st"] show ?thesis by simp
  next
    case (Inr p)
    obtain st' X' where p: "p = (st', X')" by (cases p)
    from Inr p generate_lags_config [of st X c "lag_periods st"] have "same_config st st'"
      by (simp add: state_after_def)
    with Cons.IH [of st' X'] Inr p show ?thesis
      by (auto intro: same_config_trans)
  qed
qed

lemma generate_columns_error:
  "0 < n_periods st \<Longrightarrow> raised_error (generate_columns st X cs) \<noteq> Some AssertionError"
proof (induction cs arbitrary: st X)
  case Nil
  show ?case by (simp add: raised_error_def)
next
  case (Cons c cs)
  show ?case
  proof (cases "generate_lags st X c (lag_periods st)")
    case (Inl r)
    with generate_lags_error [of "lag_periods st" st X c] lag_periods_pos [OF Cons.prems]
    show ?thesis by simp
  next
    case (Inr p)
    obtain st' X' where p: "p = (st', X')" by (cases p)
    from Inr p generate_lags_config [of st X c "lag_periods st"] have "same_config st st'"
      by (simp add: state_after_def)
    with Cons.prems have "0 < n_periods st'" by (simp add: same_config_def)
    with Cons.IH [of st' X'] Inr p show ?thesis by simp
  qed
qed

lemma drop_na_and_cast_state: "state_after (drop_na_and_cast st X) = st"
  by (auto simp: drop_na_and_cast_def state_after_def split: sum.splits)

lemma cast_error:
  "cast_cols_dtypes_to_original m X = Inl (e, X') \<Longrightarrow>
     e = KeyError \<or> e = ValueError \<or> e = OverflowError"
proof (induction m arbitrary: X)
  case Nil
  then show ?case by simp
next
  case (Cons p m)
  obtain col t where p: "p = (col, t)" by (cases p)
  from Cons.prems p Cons.IH show ?case
    by (auto simp: loc_get_def split: option.splits sum.splits dest: astype_error)
qed

lemma drop_na_and_cast_error: "raised_error (drop_na_and_cast st X) \<noteq> Some AssertionError"
  by (auto simp: drop_na_and_cast_def raised_error_def split: sum.splits dest: cast_error)

lemma drop_originals_state: "state_after (drop_originals st X cs) = st"
  by (auto simp: drop_originals_def state_after_def split: sum.splits)

lemma drop_originals_error: "raised_error (drop_originals st X cs) \<noteq> Some AssertionError"
  by (auto simp: drop_originals_def raised_error_def drop_columns_def split: sum.splits)

lemma transform_config: "same_config st (state_after (transform st X))"
proof (cases "shift_columns st")
  case None
  then show ?thesis by (simp add: transform_def state_after_def same_config_refl)
next
  case (Some cs)
  show ?thesis
  proof (cases "generate_columns st X cs")
    case (Inl r)
    with Some generate_columns_config [of st X cs] show ?thesis
      by (simp add: transform_def)
  next
    case (Inr p)
    obtain st1 X1 where p: "p = (st1, X1)" by (cases p)
    from Inr p generate_columns_config [of st X cs] have c: "same_config st st1"
      by (simp add: state_after_def)
    show ?thesis
    proof (cases "drop_na_and_cast st1 X1")
      case (Inl r)
      with drop_na_and_cast_state [of st1 X1] Some Inr p c show ?thesis
        by (simp add: transform_def)
    next
      case (Inr q)
      obtain st2 X2 where q: "q = (st2, X2)" by (cases q)
      from Inr q drop_na_and_cast_state [of st1 X1] have "st2 = st1"
        by (simp add: state_after_def)
      with Some \<open>generate_columns st X cs = Inr p\<close> p Inr q c
        drop_originals_state [of st1 X2 cs] show ?thesis
        by (simp add: transform_def)
    qed
  qed
qed

lemma transform_error:
  assumes "0 < n_periods st"
  shows "raised_error (transform st X) \<noteq> Some AssertionError"
proof (cases "shift_columns st")
  case None
  then show ?thesis by (simp add: transform_def raised_error_def)
next
  case (Some cs)
  show ?thesis
  proof (cases "generate_columns st X cs")
    case (Inl r)
    with Some generate_columns_error [OF assms, of X cs] show ?thesis
      by (simp add: transform_def)
  next
    case (Inr p)
    obtain st1 X1 where p: "p = (st1, X1)" by (cases p)
    show ?thesis
    proof (cases "drop_na_and_cast st1 X1")
      case (Inl r)
      with drop_na_and_cast_error [of st1 X1] Some Inr p show ?thesis
        by (simp add: transform_def)
    next
      case (Inr q)
      obtain st2 X2 where q: "q = (st2, X2)" by (cases q)
      with Some \<open>generate_columns st X cs = Inr p\<close> p Inr
        drop_originals_error [of st2 X2 cs] show ?thesis
        by (simp add: transform_def)
    qed
  qed
qed

lemma fit_config: "n_periods (fit st X) = n_periods st"
  by (simp add: fit_def)

lemma run_calls_no_assertion:
  "0 < n_periods st \<Longrightarrow> Some AssertionError \<notin> set (snd (run_calls st calls))"
proof (induction calls arbitrary: st)
  case Nil
  show ?case by simp
next
  case (Cons c calls)
  show ?case
  proof (cases c)
    case (Fit X)
    from Cons.prems have "0 < n_periods (fit st X)" by (simp add: fit_config)
    from Cons.IH [OF this] Fit show ?thesis
      by (simp add: split_beta)
  next
    case (Transform X)
    from Cons.prems transform_config [of st X]
    have "0 < n_periods (state_after (transform st X))" by (simp add: same_config_def)
    from Cons.IH [OF this] Transform transform_error [OF Cons.prems, of X] show ?thesis
      by (simp add: split_beta Let_def)
  qed
qed

text \<open>
  Claim C5. Constructing a lag transformer raises the assertion error exactly when
  \<open>n_periods \<le> 0\<close>; an instance that was constructed has \<open>0 < n_periods\<close>, and whatever
  fit and transform calls follow on it, on whatever frames, none of them raises the
  assertion error: the check inside column generation never fires.
\<close>

theorem lag_assertion_only_at_construction:
  "(Lag_init n cols dna doc one = Inl AssertionError \<longleftrightarrow> n \<le> 0) \<and>
   (\<forall>st. Lag_init n cols dna doc one = Inr st \<longrightarrow>
      0 < n \<and> (\<forall>calls. Some AssertionError \<notin> set (snd (run_calls st calls))))"
proof -
  have a: "Lag_init n cols dna doc one = Inl AssertionError \<longleftrightarrow> n \<le> 0"
    by (simp add: Lag_init_def)
  have b: "0 < n \<and> Some AssertionError \<notin> set (snd (run_calls st calls))"
    if "Lag_init n cols dna doc one = Inr st" for st and calls :: "'a call list"
  proof -
    from that have "0 < n" and "n_periods st = n"
      by (auto simp: Lag_init_def split: if_splits)
    with run_calls_no_assertion [of st calls] show ?thesis by simp
  qed
  from a b show ?thesis by blast
qed

theorem lag_assertion_only_at_construction_witness:
  "Lag_init 0 None False False False = Inl AssertionError \<and>
   Lag_init 2 (Some [''x1'']) False False True =
     Inr \<lparr>n_periods = 2, shift_columns = Some [''x1''], drop_na_rows = False,
          drop_original_columns = False, only_one_column_for_periods = True,
          new_columns = [], column_dtype_map = []\<rparr> \<and>
   Some AssertionError \<notin> set (snd (run_calls
     \<lparr>n_periods = 2, shift_columns = Some [''x1''], drop_na_rows = False,
      drop_original_columns = False, only_one_column_for_periods = True,
      new_columns = [], column_dtype_map = []\<rparr>
     [Fit lag_test_frame, Transform lag_test_frame, Transform []]))"
proof -
  have i: "Lag_init 2 (Some [''x1'']) False False True =
     Inr \<lparr>n_periods = 2, shift_columns = Some [''x1''], drop_na_rows = False,
          drop_original_columns = False, only_one_column_for_periods = True,
          new_columns = [], column_dtype_map = []\<rparr>"
    by (simp add: Lag_init_def)
  from lag_assertion_only_at_construction [of 0 None False False False]
  have z: "Lag_init 0 None False False False = Inl AssertionError" by simp
  have a: "Some AssertionError \<notin> set (snd (run_calls
     \<lparr>n_periods = 2, shift_columns = Some [''x1''], drop_na_rows = False,
      drop_original_columns = False, only_one_column_for_periods = True,
      new_columns = [], column_dtype_map = []\<rparr> calls))" for calls :: "string call list"
    using lag_assertion_only_at_construction
      [where 'a = string, of 2 "Some [''x1'']" False False True] i
    by blast
  show ?thesis by (intro conjI z i a)
qed

section \<open>Generated names are unambiguous\<close>

lemma append_sep_eq:
  assumes "a @ sep # xs = b @ sep # ys" and "sep \<notin> set xs" and "sep \<notin> set ys"
  shows "a = b \<and> xs = ys"
  using assms
proof (induction a arbitrary: b)
  case Nil
  show ?case
  proof (cases b)
    case Nil
    with Nil.prems show ?thesis by simp
  next
    case (Cons v b')
    with Nil.prems have "xs = b' @ sep # ys" by simp
    then have "sep \<in> set xs" by simp
    with Nil.prems show ?thesis by simp
  qed
next
  case (Cons u a')
  show ?case
  proof (cases b)
    case Nil
    with Cons.prems have "ys = a' @ sep # xs" by simp
    then have "sep \<in> set ys" by simp
    with Cons.prems show ?thesis by simp
  next
    case (Cons v b')
    with Cons.prems have "u = v" and "a' @ sep # xs = b' @ sep # ys" by simp_all
    with Cons.IH [of b'] Cons.prems Cons show ?thesis by simp
  qed
qed

lemma digit_char_inj: "d < 10 \<Longrightarrow> e < 10 \<Longrightarrow> digit_char d = digit_char e \<Longrightarrow> d = e"
proof -
  assume d: "d < 10" and e: "e < 10" and eq: "digit_char d = digit_char e"
  have "distinct ''0123456789''" by simp
  moreover have "length ''0123456789'' = 10" by simp
  ultimately show ?thesis
    using d e eq unfolding digit_char_def by (metis nth_eq_iff_index_eq)
qed

lemma digit_char_not_minus: "d < 10 \<Longrightarrow> digit_char d \<noteq> CHR ''-''"
proof -
  assume "d < 10"
  then have "d < length ''0123456789''" by simp
  then have "''0123456789'' ! d \<in> set ''0123456789''" by (rule nth_mem)
  moreover have "CHR ''-'' \<notin> set ''0123456789''" by simp
  ultimately show ?thesis unfolding digit_char_def by metis
qed

lemma str_nat_not_minus: "CHR ''-'' \<notin> set (str_nat n)"
proof (induction n rule: str_nat.induct)
  case (1 n)
  show ?case
  proof (cases "n < 10")
    case True
    then show ?thesis
      using digit_char_not_minus [of n] by (simp add: str_nat.simps [of n])
  next
    case False
    with 1 digit_char_not_minus [of "n mod 10"] show ?thesis
      by (simp add: str_nat.simps [of n])
  qed
qed

lemma str_nat_length: "length (str_nat n) = 1 \<longleftrightarrow> n < 10"
proof (cases "n < 10")
  case True
  then show ?thesis by (simp add: str_nat.simps [of n])
next
  case False
  have "0 < length (str_nat (n div 10))"
    by (subst str_nat.simps) simp
  moreover from False have "length (str_nat n) = length (str_nat (n div 10)) + 1"
    by (simp add: str_nat.simps [of n])
  ultimately show ?thesis using False by linarith
qed

lemma str_nat_inj: "str_nat n = str_nat m \<Longrightarrow> n = m"
proof (induction n arbitrary: m rule: str_nat.induct)
  case (1 n)
  show ?case
  proof (cases "n < 10")
    case True
    with "1.prems" str_nat_length [of n] str_nat_length [of m] have m: "m < 10" by simp
    with True "1.prems" show ?thesis
      by (simp add: str_nat.simps [of n] str_nat.simps [of m] digit_char_inj)
  next
    case False
    with "1.prems" str_nat_length [of n] str_nat_length [of m] have m: "\<not> m < 10" by simp
    with False "1.prems" have a: "str_nat (n div 10) = str_nat (m div 10)"
      and b: "digit_char (n mod 10) = digit_char (m mod 10)"
      by (simp_all add: str_nat.simps [of n] str_nat.simps [of m])
    from "1.IH" [OF False a] have "n div 10 = m div 10" .
    moreover from b have "n mod 10 = m mod 10" by (simp add: digit_char_inj)
    ultimately show ?thesis by (metis div_mult_mod_eq)
  qed
qed

lemma lag_name_inj:
  assumes "0 \<le> k" and "0 \<le> k'" and "lag_name c k = lag_name c' k'"
  shows "c = c' \<and> k = k'"
proof -
  from assms have "(c @ ''_LAG'') @ CHR ''-'' # str_nat (nat k) = (c' @ ''_LAG'') @ CHR ''-'' # str_nat (nat k')"
    by (simp add: lag_name_def str_int_def)
  from append_sep_eq [OF this str_nat_not_minus str_nat_not_minus]
  have "c = c'" and "str_nat (nat k) = str_nat (nat k')" by simp_all
  with str_nat_inj [of "nat k" "nat k'"] assms show ?thesis by simp
qed

lemma lag_name_not_source: "lag_name c k \<noteq> c"
  by (simp add: lag_name_def)

section \<open>The generation loop, step by step\<close>

lemma generated_names_plan: "generated_names st cs = map step_name (lag_plan st cs)"
  by (induction cs) (simp_all add: generated_names_def lag_plan_def step_name_def comp_def)

lemma lag_step_Inr:
  "lag_step st X c k = Inr (st', X') \<longleftrightarrow>
     0 < k \<and> (\<exists>s. map_of X c = Some s \<and>
       st' = st\<lparr>new_columns := new_columns st @ [lag_name c k],
                column_dtype_map := AList.update (lag_name c k) (dtype s) (column_dtype_map st)\<rparr> \<and>
       X' = loc_set X (lag_name c k) (shift s k))"
  by (auto simp: lag_step_def generate_lag_column_and_update_dtype_map_def Let_def loc_get_def
      split: option.splits)

lemma lag_step_Inl:
  "lag_step st X c k = Inl (e, st', X') \<longleftrightarrow>
     X' = X \<and>
     (if 0 < k then e = KeyError \<and> map_of X c = None \<and>
          st' = st\<lparr>new_columns := new_columns st @ [lag_name c k]\<rparr>
      else e = AssertionError \<and> st' = st)"
  by (auto simp: lag_step_def generate_lag_column_and_update_dtype_map_def Let_def loc_get_def
      split: option.splits)

lemma run_steps_append:
  "run_steps st X (ps @ qs) =
     (case run_steps st X ps of Inl r \<Rightarrow> Inl r | Inr (st', X') \<Rightarrow> run_steps st' X' qs)"
proof (induction ps arbitrary: st X)
  case Nil
  show ?case by simp
next
  case (Cons p ps)
  obtain c k where p: "p = (c, k)" by (cases p)
  show ?case
  proof (cases "lag_step st X c k")
    case (Inl r)
    with p show ?thesis by simp
  next
    case (Inr q)
    obtain st1 X1 where q: "q = (st1, X1)" by (cases q)
    with Inr p Cons.IH [of st1 X1] show ?thesis by simp
  qed
qed

lemma generate_lags_steps: "generate_lags st X c ks = run_steps st X (map (Pair c) ks)"
proof (induction ks arbitrary: st X)
  case Nil
  show ?case by simp
next
  case (Cons k ks)
  then show ?case by (cases "lag_step st X c k") (auto split: prod.splits)
qed

lemma generate_columns_steps: "generate_columns st X cs = run_steps st X (lag_plan st cs)"
proof (induction cs arbitrary: st X)
  case Nil
  show ?case by (simp add: lag_plan_def)
next
  case (Cons c cs)
  have plan: "lag_plan st (c # cs) = map (Pair c) (lag_periods st) @ lag_plan st cs"
    by (simp add: lag_plan_def)
  show ?case
  proof (cases "generate_lags st X c (lag_periods st)")
    case (Inl r)
    then show ?thesis
      by (simp add: plan run_steps_append generate_lags_steps [symmetric])
  next
    case (Inr q)
    obtain st1 X1 where q: "q = (st1, X1)" by (cases q)
    from Inr q generate_lags_config [of st X c "lag_periods st"] have "same_config st st1"
      by (simp add: state_after_def)
    then have "lag_plan st1 cs = lag_plan st cs"
      by (simp add: lag_plan_def lag_periods_cong)
    with Inr q Cons.IH [of st1 X1] show ?thesis
      by (simp add: plan run_steps_append generate_lags_steps [symmetric])
  qed
qed

lemma run_steps_Cons_Inr:
  "run_steps st X ((c, k) # ps) = Inr (st', X') \<longleftrightarrow>
     (\<exists>st1 X1. lag_step st X c k = Inr (st1, X1) \<and> run_steps st1 X1 ps = Inr (st', X'))"
  by (cases "lag_step st X c k") auto

lemma in_columns: "c \<in> set (columns X) \<longleftrightarrow> (\<exists>s. map_of X c = Some s)"
  by (metis columns_def list.set_map map_of_eq_None_iff not_Some_eq)

lemma columns_loc_set:
  "columns (loc_set X n s) = (if n \<in> set (columns X) then columns X else columns X @ [n])"
  by (simp add: loc_set_def columns_def update_keys)

lemma map_of_loc_set: "map_of (loc_set X n s) = (map_of X)(n \<mapsto> s)"
  by (simp add: loc_set_def update_conv')

lemma run_steps_new_columns:
  "run_steps st X ps = Inr (st', X') \<Longrightarrow> new_columns st' = new_columns st @ map step_name ps"
proof (induction ps arbitrary: st X)
  case Nil
  then show ?case by simp
next
  case (Cons p ps)
  obtain c k where p: "p = (c, k)" by (cases p)
  from Cons.prems obtain st1 X1 where 1: "lag_step st X c k = Inr (st1, X1)"
    and 2: "run_steps st1 X1 ps = Inr (st', X')"
    unfolding p run_steps_Cons_Inr by blast
  from 1 have "new_columns st1 = new_columns st @ [lag_name c k]"
    by (auto simp: lag_step_Inr)
  with Cons.IH [OF 2] p show ?case by (simp add: step_name_def)
qed

lemma run_steps_positive:
  "run_steps st X ps = Inr (st', X') \<Longrightarrow> \<forall>p \<in> set ps. 0 < snd p"
proof (induction ps arbitrary: st X)
  case Nil
  then show ?case by simp
next
  case (Cons p ps)
  obtain c k where p: "p = (c, k)" by (cases p)
  from Cons.prems obtain st1 X1 where 1: "lag_step st X c k = Inr (st1, X1)"
    and 2: "run_steps st1 X1 ps = Inr (st', X')"
    unfolding p run_steps_Cons_Inr by blast
  from 1 have "0 < k" by (simp add: lag_step_Inr)
  with Cons.IH [OF 2] p show ?case by simp
qed

lemma run_steps_succeeds:
  "\<forall>p \<in> set ps. 0 < snd p \<and> fst p \<in> set (columns X) \<Longrightarrow>
     \<exists>st' X'. run_steps st X ps = Inr (st', X')"
proof (induction ps arbitrary: st X)
  case Nil
  show ?case by simp
next
  case (Cons p ps)
  obtain c k where p: "p = (c, k)" by (cases p)
  from Cons.prems p have k: "0 < k" and c: "c \<in> set (columns X)" by simp_all
  from c obtain s where s: "map_of X c = Some s" by (auto simp: in_columns)
  define st1 where "st1 = st\<lparr>new_columns := new_columns st @ [lag_name c k],
              column_dtype_map := AList.update (lag_name c k) (dtype s) (column_dtype_map st)\<rparr>"
  define X1 where "X1 = loc_set X (lag_name c k) (shift s k)"
  from k s have 1: "lag_step st X c k = Inr (st1, X1)"
    by (simp add: lag_step_Inr st1_def X1_def)
  have "set (columns X) \<subseteq> set (columns X1)"
    by (auto simp: X1_def columns_loc_set)
  with Cons.prems have "\<forall>p \<in> set ps. 0 < snd p \<and> fst p \<in> set (columns X1)" by auto
  from Cons.IH [OF this, of st1] obtain st' X' where "run_steps st1 X1 ps = Inr (st', X')"
    by blast
  with 1 have "run_steps st X ((c, k) # ps) = Inr (st', X')"
    unfolding run_steps_Cons_Inr by blast
  with p show ?case by blast
qed

lemma step_name_inj:
  "step_name p = step_name q \<Longrightarrow> 0 < snd p \<Longrightarrow> 0 < snd q \<Longrightarrow> p = q"
  using lag_name_inj [of "snd p" "snd q" "fst p" "fst q"]
  by (simp add: step_name_def prod_eq_iff)

lemma run_steps_content:
  assumes "run_steps st X ps = Inr (st', X')"
    and "\<forall>p \<in> set ps. \<forall>q \<in> set ps. step_name p \<noteq> fst q"
  shows "(\<forall>p \<in> set ps. \<exists>s. map_of X (fst p) = Some s \<and>
            map_of X' (step_name p) = Some (shift s (snd p)) \<and>
            map_of (column_dtype_map st') (step_name p) = Some (dtype s)) \<and>
         (\<forall>x. x \<notin> step_name ` set ps \<longrightarrow>
            map_of X' x = map_of X x \<and>
            map_of (column_dtype_map st') x = map_of (column_dtype_map st) x)"
  using assms
proof (induction ps arbitrary: st X)
  case Nil
  then show ?case by simp
next
  case (Cons p ps)
  obtain c k where p: "p = (c, k)" by (cases p)
  let ?g = "lag_name c k"
  from Cons.prems(1) obtain st1 X1 where 1: "lag_step st X c k = Inr (st1, X1)"
    and 2: "run_steps st1 X1 ps = Inr (st', X')"
    unfolding p run_steps_Cons_Inr by blast
  from 1 obtain s where k: "0 < k" and s: "map_of X c = Some s"
    and st1: "column_dtype_map st1 = AList.update ?g (dtype s) (column_dtype_map st)"
    and X1: "X1 = loc_set X ?g (shift s k)"
    by (auto simp: lag_step_Inr)
  from Cons.prems(2) have nc: "\<forall>p \<in> set ps. \<forall>q \<in> set ps. step_name p \<noteq> fst q" by simp
  from Cons.prems(2) p have g_src: "\<forall>q \<in> set ps. ?g \<noteq> fst q" and g_c: "?g \<noteq> c"
    by (auto simp: step_name_def)
  note IH = Cons.IH [OF 2 nc]
  from run_steps_positive [OF 2] have pos: "\<forall>q \<in> set ps. 0 < snd q" .
  have X1_other: "map_of X1 x = map_of X x" if "x \<noteq> ?g" for x
    using that by (simp add: X1 map_of_loc_set)
  have m1_other: "map_of (column_dtype_map st1) x = map_of (column_dtype_map st) x"
    if "x \<noteq> ?g" for x
    using that by (simp add: st1 update_conv')
  have tail: "\<exists>s. map_of X (fst q) = Some s \<and>
            map_of X' (step_name q) = Some (shift s (snd q)) \<and>
            map_of (column_dtype_map st') (step_name q) = Some (dtype s)" if "q \<in> set ps" for q
  proof -
    from IH that obtain s' where "map_of X1 (fst q) = Some s'"
      and r: "map_of X' (step_name q) = Some (shift s' (snd q))"
        "map_of (column_dtype_map st') (step_name q) = Some (dtype s')"
      by blast
    moreover from g_src that have "fst q \<noteq> ?g" by auto
    ultimately have "map_of X (fst q) = Some s'" by (simp add: X1_other)
    with r show ?thesis by blast
  qed
  have head: "\<exists>s. map_of X c = Some s \<and>
            map_of X' ?g = Some (shift s k) \<and>
            map_of (column_dtype_map st') ?g = Some (dtype s)"
  proof (cases "?g \<in> step_name ` set ps")
    case True
    then obtain q where q: "q \<in> set ps" and "step_name q = step_name (c, k)"
      by (auto simp: step_name_def)
    with pos k step_name_inj [of q "(c, k)"] have "q = (c, k)" by simp
    with tail [OF q] show ?thesis by (simp add: step_name_def)
  next
    case False
    with IH have "map_of X' ?g = map_of X1 ?g"
      and "map_of (column_dtype_map st') ?g = map_of (column_dtype_map st1) ?g"
      by simp_all
    with s show ?thesis by (simp add: X1 st1 map_of_loc_set update_conv')
  qed
  have other: "map_of X' x = map_of X x \<and>
            map_of (column_dtype_map st') x = map_of (column_dtype_map st) x"
    if "x \<notin> step_name ` set (p # ps)" for x
  proof -
    from that p have "x \<noteq> ?g" and "x \<notin> step_name ` set ps"
      by (auto simp: step_name_def)
    with IH X1_other m1_other show ?thesis by simp
  qed
  from head tail other p show ?case by (auto simp: step_name_def)
qed

lemma run_steps_columns_set:
  "run_steps st X ps = Inr (st', X') \<Longrightarrow>
     set (columns X') = set (columns X) \<union> step_name ` set ps"
proof (induction ps arbitrary: st X)
  case Nil
  then show ?case by simp
next
  case (Cons p ps)
  obtain c k where p: "p = (c, k)" by (cases p)
  from Cons.prems(1) obtain st1 X1 where 1: "lag_step st X c k = Inr (st1, X1)"
    and 2: "run_steps st1 X1 ps = Inr (st', X')"
    unfolding p run_steps_Cons_Inr by blast
  from 1 have "set (columns X1) = insert (lag_name c k) (set (columns X))"
    by (auto simp: lag_step_Inr columns_loc_set split: if_splits)
  with Cons.IH [OF 2] p show ?case by (auto simp: step_name_def)
qed

lemma run_steps_columns_prefix:
  "run_steps st X ps = Inr (st', X') \<Longrightarrow> \<exists>ys. columns X' = columns X @ ys"
proof (induction ps arbitrary: st X)
  case Nil
  then show ?case by simp
next
  case (Cons p ps)
  obtain c k where p: "p = (c, k)" by (cases p)
  from Cons.prems(1) obtain st1 X1 where 1: "lag_step st X c k = Inr (st1, X1)"
    and 2: "run_steps st1 X1 ps = Inr (st', X')"
    unfolding p run_steps_Cons_Inr by blast
  from 1 have "\<exists>ys. columns X1 = columns X @ ys"
    by (auto simp: lag_step_Inr columns_loc_set)
  with Cons.IH [OF 2] show ?case by auto
qed

lemma run_steps_columns_fresh:
  assumes "run_steps st X ps = Inr (st', X')"
    and "distinct (map step_name ps)"
    and "step_name ` set ps \<inter> set (columns X) = {}"
  shows "columns X' = columns X @ map step_name ps"
  using assms
proof (induction ps arbitrary: st X)
  case Nil
  then show ?case by simp
next
  case (Cons p ps)
  obtain c k where p: "p = (c, k)" by (cases p)
  from Cons.prems(1) obtain st1 X1 where 1: "lag_step st X c k = Inr (st1, X1)"
    and 2: "run_steps st1 X1 ps = Inr (st', X')"
    unfolding p run_steps_Cons_Inr by blast
  from Cons.prems(3) p have "lag_name c k \<notin> set (columns X)"
    by (auto simp: step_name_def)
  with 1 have X1: "columns X1 = columns X @ [lag_name c k]"
    by (auto simp: lag_step_Inr columns_loc_set)
  from Cons.prems(2,3) p have "step_name ` set ps \<inter> set (columns X1) = {}"
    by (auto simp: X1 step_name_def)
  with Cons.IH [OF 2] Cons.prems(2) X1 p show ?case by (simp add: step_name_def)
qed

section \<open>The frame a transform returns\<close>

lemma drop_na_and_cast_Inr:
  "drop_na_and_cast st X = Inr (st', X') \<longleftrightarrow>
     st' = st \<and>
     (if drop_na_rows st then cast_cols_dtypes_to_original (column_dtype_map st) (dropna X) = Inr X'
      else X' = X)"
  by (auto simp: drop_na_and_cast_def split: sum.splits)

lemma drop_originals_Inr:
  "drop_originals st X cs = Inr (st', X') \<longleftrightarrow>
     st' = st \<and>
     (if drop_original_columns st then drop_columns X cs = Inr X' else X' = X)"
  by (auto simp: drop_originals_def split: sum.splits)

lemma transform_Inr:
  assumes "shift_columns st = Some cs"
  shows "transform st X = Inr (st', X') \<longleftrightarrow>
     (\<exists>X1 X2. run_steps st X (lag_plan st cs) = Inr (st', X1) \<and>
        drop_na_and_cast st' X1 = Inr (st', X2) \<and>
        drop_originals st' X2 cs = Inr (st', X'))"
proof -
  have "transform st X = Inr (st', X') \<longleftrightarrow>
     (\<exists>st1 X1 st2 X2. generate_columns st X cs = Inr (st1, X1) \<and>
        drop_na_and_cast st1 X1 = Inr (st2, X2) \<and>
        drop_originals st2 X2 cs = Inr (st', X'))"
    using assms by (auto simp: transform_def split: sum.splits)
  also have "\<dots> \<longleftrightarrow> (\<exists>X1 X2. generate_columns st X cs = Inr (st', X1) \<and>
        drop_na_and_cast st' X1 = Inr (st', X2) \<and>
        drop_originals st' X2 cs = Inr (st', X'))"
    by (auto simp: drop_na_and_cast_Inr drop_originals_Inr)
  finally show ?thesis by (simp add: generate_columns_steps)
qed

lemma columns_dropna: "columns (dropna X) = columns X"
  by (simp add: dropna_def columns_def Let_def comp_def)

lemma cast_columns:
  "cast_cols_dtypes_to_original m X = Inr X' \<Longrightarrow> columns X' = columns X"
proof (induction m arbitrary: X)
  case Nil
  then show ?case by simp
next
  case (Cons p m)
  obtain col t where p: "p = (col, t)" by (cases p)
  from Cons.prems p obtain s s' where s: "map_of X col = Some s" and "astype s t = Inr s'"
    and r: "cast_cols_dtypes_to_original m (loc_set X col s') = Inr X'"
    by (auto simp: loc_get_def split: option.splits sum.splits)
  from s have "col \<in> set (columns X)" by (auto simp: in_columns)
  then have "columns (loc_set X col s') = columns X" by (simp add: columns_loc_set)
  with Cons.IH [OF r] show ?case by simp
qed

lemma drop_columns_Inr:
  "drop_columns X cs = Inr X' \<longleftrightarrow>
     set cs \<subseteq> set (columns X) \<and> X' = filter (\<lambda>p. fst p \<notin> set cs) X"
  by (auto simp: drop_columns_def list_all_iff)

lemma columns_filter: "columns (filter (\<lambda>p. P (fst p)) X) = filter P (columns X)"
  by (simp add: columns_def filter_map comp_def)

lemma drop_na_and_cast_columns:
  "drop_na_and_cast st X = Inr (st', X') \<Longrightarrow> columns X' = columns X"
  by (auto simp: drop_na_and_cast_Inr columns_dropna split: if_splits dest: cast_columns)

lemma lag_periods_distinct: "distinct (lag_periods st)"
  by (simp add: lag_periods_def)

lemma lag_periods_length:
  "length (lag_periods st) = (if only_one_column_for_periods st then 1 else nat (n_periods st))"
  by (simp add: lag_periods_def)

lemma lag_names_distinct:
  assumes "\<forall>k \<in> set ks. 0 < k" and "distinct ks"
  shows "distinct (map (lag_name c) ks)"
proof -
  have "inj_on (lag_name c) (set ks)"
  proof (rule inj_onI)
    fix x y assume "x \<in> set ks" and "y \<in> set ks" and eq: "lag_name c x = lag_name c y"
    with assms(1) have "0 \<le> x" and "0 \<le> y" by auto
    from lag_name_inj [OF this eq] show "x = y" by simp
  qed
  with assms(2) show ?thesis by (simp add: distinct_map)
qed

lemma lag_plan_set: "set (lag_plan st cs) = set cs \<times> set (lag_periods st)"
  by (auto simp: lag_plan_def)

lemma lag_plan_distinct: "distinct cs \<Longrightarrow> distinct (lag_plan st cs)"
proof (induction cs)
  case Nil
  show ?case by (simp add: lag_plan_def)
next
  case (Cons c cs)
  have "lag_plan st (c # cs) = map (Pair c) (lag_periods st) @ lag_plan st cs"
    by (simp add: lag_plan_def)
  moreover have "distinct (map (Pair c) (lag_periods st))"
    by (simp add: distinct_map lag_periods_distinct inj_on_def)
  moreover from Cons.prems have "set (map (Pair c) (lag_periods st)) \<inter> set (lag_plan st cs) = {}"
    by (auto simp: lag_plan_set)
  ultimately show ?case using Cons by simp
qed

lemma generated_names_distinct:
  assumes "distinct cs" and "\<forall>k \<in> set (lag_periods st). 0 < k"
  shows "distinct (generated_names st cs)"
proof -
  have "inj_on step_name (set (lag_plan st cs))"
    using assms(2) step_name_inj
    by (auto simp: inj_on_def lag_plan_set)
  with lag_plan_distinct [OF assms(1)] show ?thesis
    by (simp add: generated_names_plan distinct_map)
qed

lemma generated_names_set:
  "set (generated_names st cs) = {lag_name c k | c k. c \<in> set cs \<and> k \<in> set (lag_periods st)}"
  by (auto simp: generated_names_def)

lemma columns_filter_notin:
  "columns (filter (\<lambda>p. fst p \<notin> A) X) = filter (\<lambda>n. n \<notin> A) (columns X)"
  by (induction X) (simp_all add: columns_def)

lemma transform_columns:
  assumes "shift_columns st = Some cs" and "transform st X = Inr (st', X')"
  obtains X1 where "run_steps st X (lag_plan st cs) = Inr (st', X1)"
    and "columns X' =
      (if drop_original_columns st then filter (\<lambda>n. n \<notin> set cs) (columns X1) else columns X1)"
proof -
  from assms obtain X1 X2 where 1: "run_steps st X (lag_plan st cs) = Inr (st', X1)"
    and 2: "drop_na_and_cast st' X1 = Inr (st', X2)"
    and 3: "drop_originals st' X2 cs = Inr (st', X')"
    by (auto simp: transform_Inr)
  from generate_columns_config [of st X cs] 1 have cfg: "same_config st st'"
    by (simp add: generate_columns_steps state_after_def)
  from 2 have "columns X2 = columns X1" by (rule drop_na_and_cast_columns)
  with 3 cfg have "columns X' =
      (if drop_original_columns st then filter (\<lambda>n. n \<notin> set cs) (columns X1) else columns X1)"
    by (auto simp: drop_originals_Inr drop_columns_Inr columns_filter_notin same_config_def
        split: if_splits)
  with 1 show ?thesis by (rule that)
qed

text \<open>
  Claim C2. A transform call that returns has generated, for every source column \<open>c\<close> in the
  order of \<open>shift_columns\<close>, the names \<open>c_LAG-1\<close>, ..., \<open>c_LAG-n\<close> (with \<open>n = n_periods\<close>) when
  one column per period step is asked for, and the one name \<open>c_LAG-n\<close> otherwise: these names,
  and no others, are appended to \<open>new_columns\<close>; per source column they are pairwise different
  and their number is \<open>n\<close>, respectively 1; each of them is a column of the returned frame
  (unless it is itself a source column that the call drops). When the source columns are
  pairwise different and the frame had no column of a generated name, the columns of the
  returned frame are the old ones followed by exactly the generated ones.
\<close>

theorem transform_generated_names:
  assumes "shift_columns st = Some cs" and "transform st X = Inr (st', X')"
  shows "lag_periods st =
           (if only_one_column_for_periods st then [n_periods st] else [1..n_periods st]) \<and>
         new_columns st' =
           new_columns st @ concat (map (\<lambda>c. map (lag_name c) (lag_periods st)) cs) \<and>
         (\<forall>c \<in> set cs.
            distinct (map (lag_name c) (lag_periods st)) \<and>
            length (map (lag_name c) (lag_periods st)) =
              (if only_one_column_for_periods st then 1 else nat (n_periods st)) \<and>
            (\<forall>k \<in> set (lag_periods st).
               lag_name c k = c @ ''_LAG-'' @ str_int k \<and>
               ((drop_original_columns st \<longrightarrow> lag_name c k \<notin> set cs) \<longrightarrow>
                  lag_name c k \<in> set (columns X')))) \<and>
         (distinct cs \<and> set (generated_names st cs) \<inter> set (columns X) = {} \<longrightarrow>
            columns X' =
              (if drop_original_columns st
               then filter (\<lambda>n. n \<notin> set cs) (columns X @ generated_names st cs)
               else columns X @ generated_names st cs))"
proof -
  from assms obtain X1 where 1: "run_steps st X (lag_plan st cs) = Inr (st', X1)"
    and cols: "columns X' =
      (if drop_original_columns st then filter (\<lambda>n. n \<notin> set cs) (columns X1) else columns X1)"
    by (rule transform_columns)
  have a: "lag_periods st =
           (if only_one_column_for_periods st then [n_periods st] else [1..n_periods st])"
    by (simp add: lag_periods_def)
  from run_steps_new_columns [OF 1]
  have b: "new_columns st' =
           new_columns st @ concat (map (\<lambda>c. map (lag_name c) (lag_periods st)) cs)"
    by (simp add: generated_names_plan [symmetric] generated_names_def)
  from run_steps_columns_set [OF 1]
  have X1: "set (columns X1) = set (columns X) \<union> set (generated_names st cs)"
    by (simp add: generated_names_plan)
  have pos: "\<forall>k \<in> set (lag_periods st). 0 < k" if "c \<in> set cs" for c
    using run_steps_positive [OF 1] that by (auto simp: lag_plan_set)
  have c: "distinct (map (lag_name c) (lag_periods st)) \<and>
            length (map (lag_name c) (lag_periods st)) =
              (if only_one_column_for_periods st then 1 else nat (n_periods st)) \<and>
            (\<forall>k \<in> set (lag_periods st).
               lag_name c k = c @ ''_LAG-'' @ str_int k \<and>
               ((drop_original_columns st \<longrightarrow> lag_name c k \<notin> set cs) \<longrightarrow>
                  lag_name c k \<in> set (columns X')))" if "c \<in> set cs" for c
  proof -
    have "lag_name c k \<in> set (columns X')"
      if "k \<in> set (lag_periods st)" and "drop_original_columns st \<longrightarrow> lag_name c k \<notin> set cs"
      for k
    proof -
      from that \<open>c \<in> set cs\<close> have "lag_name c k \<in> set (columns X1)"
        by (auto simp: X1 generated_names_set)
      with that(2) show ?thesis by (simp add: cols)
    qed
    with lag_names_distinct [OF pos [OF that] lag_periods_distinct] show ?thesis
      by (simp add: lag_periods_length lag_name_def)
  qed
  have d: "columns X' =
              (if drop_original_columns st
               then filter (\<lambda>n. n \<notin> set cs) (columns X @ generated_names st cs)
               else columns X @ generated_names st cs)"
    if "distinct cs" and "set (generated_names st cs) \<inter> set (columns X) = {}"
  proof -
    have "distinct (generated_names st cs)"
    proof (cases cs)
      case Nil
      then show ?thesis by (simp add: generated_names_def)
    next
      case (Cons c cs')
      then have "c \<in> set cs" by simp
      from generated_names_distinct [OF that(1) pos [OF this]] show ?thesis .
    qed
    with run_steps_columns_fresh [OF 1] that(2)
    have "columns X1 = columns X @ generated_names st cs"
      by (simp add: generated_names_plan)
    with cols show ?thesis by simp
  qed
  from a b c d show ?thesis by blast
qed

theorem transform_generated_names_witness:
  "shift_columns lag_test_transformer = Some [''x1'', ''x2''] \<and>
   transform lag_test_transformer lag_test_frame =
     Inr (lag_test_transformer\<lparr>new_columns := [''x1_LAG-2'', ''x2_LAG-2''],
         column_dtype_map := [(''x1_LAG-2'', Int64), (''x2_LAG-2'', Int64)]\<rparr>,
       lag_test_frame @
       [(''x1_LAG-2'', \<lparr>dtype = Float64, cells = [None, None, Some (PFloat 1), Some (PFloat 2), Some (PFloat 3)]\<rparr>),
        (''x2_LAG-2'', \<lparr>dtype = Float64, cells = [None, None, Some (PFloat 6), Some (PFloat 7), Some (PFloat 8)]\<rparr>)]) \<and>
   lag_periods lag_test_transformer = [2] \<and>
   columns (lag_test_frame @
       [(''x1_LAG-2'', \<lparr>dtype = Float64, cells = [None, None, Some (PFloat 1), Some (PFloat 2), Some (PFloat 3)]\<rparr>),
        (''x2_LAG-2'', \<lparr>dtype = Float64, cells = [None, None, Some (PFloat 6), Some (PFloat 7), Some (PFloat 8)]\<rparr>)]) =
     [''date'', ''x1'', ''x2'', ''x1_LAG-2'', ''x2_LAG-2'']"
proof -
  have h1: "shift_columns lag_test_transformer = Some [''x1'', ''x2'']"
    by (simp add: lag_test_transformer_def)
  have h2: "transform lag_test_transformer lag_test_frame =
     Inr (lag_test_transformer\<lparr>new_columns := [''x1_LAG-2'', ''x2_LAG-2''],
         column_dtype_map := [(''x1_LAG-2'', Int64), (''x2_LAG-2'', Int64)]\<rparr>,
       lag_test_frame @
       [(''x1_LAG-2'', \<lparr>dtype = Float64, cells = [None, None, Some (PFloat 1), Some (PFloat 2), Some (PFloat 3)]\<rparr>),
        (''x2_LAG-2'', \<lparr>dtype = Float64, cells = [None, None, Some (PFloat 6), Some (PFloat 7), Some (PFloat 8)]\<rparr>)])"
    by code_simp
  have h3: "distinct [''x1'', ''x2''] \<and>
     set (generated_names lag_test_transformer [''x1'', ''x2'']) \<inter> set (columns lag_test_frame) = {}"
    by code_simp
  have h4: "generated_names lag_test_transformer [''x1'', ''x2''] = [''x1_LAG-2'', ''x2_LAG-2'']"
    by code_simp
  have h5: "columns lag_test_frame = [''date'', ''x1'', ''x2'']" by code_simp
  have h6: "\<not> drop_original_columns lag_test_transformer" by code_simp
  have h7: "lag_periods lag_test_transformer = [2]" by code_simp
  note T = transform_generated_names [OF h1 h2]
  note d = conjunct2 [OF conjunct2 [OF conjunct2 [OF T]]]
  from mp [OF d h3] h6 have "columns (lag_test_frame @
       [(''x1_LAG-2'', \<lparr>dtype = Float64, cells = [None, None, Some (PFloat 1), Some (PFloat 2), Some (PFloat 3)]\<rparr>),
        (''x2_LAG-2'', \<lparr>dtype = Float64, cells = [None, None, Some (PFloat 6), Some (PFloat 7), Some (PFloat 8)]\<rparr>)]) =
     columns lag_test_frame @ generated_names lag_test_transformer [''x1'', ''x2'']"
    by (simp only: if_False)
  then have h8: "columns (lag_test_frame @
       [(''x1_LAG-2'', \<lparr>dtype = Float64, cells = [None, None, Some (PFloat 1), Some (PFloat 2), Some (PFloat 3)]\<rparr>),
        (''x2_LAG-2'', \<lparr>dtype = Float64, cells = [None, None, Some (PFloat 6), Some (PFloat 7), Some (PFloat 8)]\<rparr>)]) =
     [''date'', ''x1'', ''x2'', ''x1_LAG-2'', ''x2_LAG-2'']"
    by (simp only: h4 h5 append.simps)
  show ?thesis by (intro conjI h1 h2 h7 h8)
qed

section \<open>Claim C1: a generated column is its source, shifted\<close>

lemma run_steps_untouched:
  "run_steps st X ps = Inr (st', X') \<Longrightarrow> x \<notin> step_name ` set ps \<Longrightarrow>
     map_of X' x = map_of X x \<and>
     map_of (column_dtype_map st') x = map_of (column_dtype_map st) x"
proof (induction ps arbitrary: st X)
  case Nil
  then show ?case by simp
next
  case (Cons p ps)
  obtain c k where p: "p = (c, k)" by (cases p)
  from Cons.prems(1) obtain st1 X1 where 1: "lag_step st X c k = Inr (st1, X1)"
    and 2: "run_steps st1 X1 ps = Inr (st', X')"
    unfolding p run_steps_Cons_Inr by blast
  from Cons.prems(2) p have x: "x \<noteq> lag_name c k" and x': "x \<notin> step_name ` set ps"
    by (auto simp: step_name_def)
  from 1 x have "map_of X1 x = map_of X x"
    and "map_of (column_dtype_map st1) x = map_of (column_dtype_map st) x"
    by (auto simp: lag_step_Inr map_of_loc_set update_conv')
  with Cons.IH [OF 2 x'] show ?case by simp
qed

lemma generate_columns_succeeds:
  assumes "0 < n_periods st" and "set cs \<subseteq> set (columns X)"
  shows "\<exists>st' X'. generate_columns st X cs = Inr (st', X')"
proof -
  from assms lag_periods_pos [OF assms(1)]
  have "\<forall>p \<in> set (lag_plan st cs). 0 < snd p \<and> fst p \<in> set (columns X)"
    by (auto simp: lag_plan_set)
  from run_steps_succeeds [OF this] show ?thesis by (simp add: generate_columns_steps)
qed

lemma value_eq_refl: "value_eq v v"
  by (cases v) simp_all

lemma same_cell_refl: "same_cell c c"
  by (cases c) (simp_all add: value_eq_refl)

lemma same_cell_shift_value:
  assumes "t = Int64 \<longrightarrow> (\<forall>v. c = Some (PInt v) \<longrightarrow> \<bar>v\<bar> \<le> 2 ^ 53)"
  shows "same_cell (map_option (shift_value t) c) c"
proof (cases c)
  case None
  then show ?thesis by simp
next
  case (Some w)
  show ?thesis
  proof (cases w)
    case (PInt v)
    with Some assms show ?thesis
      by (cases "t = Int64") (simp_all add: shift_value_def float64_of_int_exact)
  next
    case (PFloat q)
    with Some show ?thesis by (simp add: shift_value_def)
  next
    case (PObj x)
    with Some show ?thesis by (simp add: shift_value_def)
  qed
qed

text \<open>
  Claim C1, amended. Let no generated name be itself one of the source columns. When the
  generation loop of \<open>transform\<close> returns (its frame is what \<open>transform\<close> returns when neither
  rows nor source columns are dropped), then for every source column \<open>c\<close> and every generated
  lag \<open>k\<close> (1 to \<open>n_periods\<close>, or \<open>n_periods\<close> alone) the source column is unchanged and the
  column named \<open>c_LAG-k\<close> has the dtype the shift gives (float64 for an integer column), as
  many rows as \<open>c\<close>, the missing value in every row \<open>i < k\<close> and in every row \<open>i \<ge> k\<close> the
  value of \<open>c\<close> at row \<open>i - k\<close> as the shift converts it: the nearest float64 for an integer of
  an integer column, the value itself otherwise. That is the same value as the one of \<open>c\<close> at
  row \<open>i - k\<close> unless \<open>c\<close> is an integer column and the magnitude of the integer exceeds
  \<open>2\<^sup>5\<^sup>3\<close>.
  As stated in the claim, for every table, this fails twice: a generated column that is also
  a source column is overwritten between the reads, as the counterexample shows on a frame
  that already has columns \<open>a_LAG-1\<close> and \<open>a_LAG-1_LAG-1\<close>; and an integer beyond \<open>2\<^sup>5\<^sup>3\<close>
  comes back as another number, as it shows on a frame with \<open>2\<^sup>5\<^sup>3 + 1\<close>.
\<close>

theorem generated_column_is_shifted_source:
  assumes "generate_columns st X cs = Inr (st', X')"
    and "set (generated_names st cs) \<inter> set cs = {}"
  shows "(\<not> drop_na_rows st \<and> \<not> drop_original_columns st \<and> shift_columns st = Some cs \<longrightarrow>
            transform st X = Inr (st', X')) \<and>
         lag_periods st =
           (if only_one_column_for_periods st then [n_periods st] else [1..n_periods st]) \<and>
         (\<forall>c \<in> set cs. \<forall>k \<in> set (lag_periods st).
            \<exists>s g. map_of X c = Some s \<and> map_of X' c = Some s \<and>
              map_of X' (c @ ''_LAG-'' @ str_int k) = Some g \<and>
              dtype g = shifted_dtype (dtype s) \<and>
              length (cells g) = length (cells s) \<and>
              (\<forall>i < length (cells s).
                 cells g ! i =
                   (if i < nat k then None
                    else map_option (shift_value (dtype s)) (cells s ! (i - nat k))) \<and>
                 ((dtype s = Int64 \<longrightarrow>
                     (\<forall>v. cells s ! (i - nat k) = Some (PInt v) \<longrightarrow> \<bar>v\<bar> \<le> 2 ^ 53)) \<longrightarrow>
                  same_cell (cells g ! i)
                    (if i < nat k then None else cells s ! (i - nat k)))))"
proof -
  from assms(1) have 1: "run_steps st X (lag_plan st cs) = Inr (st', X')"
    by (simp add: generate_columns_steps)
  from generate_columns_config [of st X cs] assms(1) have cfg: "same_config st st'"
    by (simp add: state_after_def)
  have a: "transform st X = Inr (st', X')"
    if "\<not> drop_na_rows st \<and> \<not> drop_original_columns st \<and> shift_columns st = Some cs"
    using that 1 cfg
    by (auto simp: transform_Inr drop_na_and_cast_Inr drop_originals_Inr same_config_def)
  have b: "lag_periods st =
           (if only_one_column_for_periods st then [n_periods st] else [1..n_periods st])"
    by (simp add: lag_periods_def)
  from assms(2) have nc: "\<forall>p \<in> set (lag_plan st cs). \<forall>q \<in> set (lag_plan st cs). step_name p \<noteq> fst q"
    by (auto simp: generated_names_plan lag_plan_set)
  note content = run_steps_content [OF 1 nc]
  have c: "\<exists>s g. map_of X c = Some s \<and> map_of X' c = Some s \<and>
              map_of X' (c @ ''_LAG-'' @ str_int k) = Some g \<and>
              dtype g = shifted_dtype (dtype s) \<and>
              length (cells g) = length (cells s) \<and>
              (\<forall>i < length (cells s).
                 cells g ! i =
                   (if i < nat k then None
                    else map_option (shift_value (dtype s)) (cells s ! (i - nat k))) \<and>
                 ((dtype s = Int64 \<longrightarrow>
                     (\<forall>v. cells s ! (i - nat k) = Some (PInt v) \<longrightarrow> \<bar>v\<bar> \<le> 2 ^ 53)) \<longrightarrow>
                  same_cell (cells g ! i)
                    (if i < nat k then None else cells s ! (i - nat k))))"
    if c: "c \<in> set cs" and k: "k \<in> set (lag_periods st)" for c k
  proof -
    from c k have p: "(c, k) \<in> set (lag_plan st cs)" by (simp add: lag_plan_set)
    with content obtain s where s: "map_of X c = Some s"
      and g: "map_of X' (lag_name c k) = Some (shift s k)"
      by (fastforce simp: step_name_def)
    from run_steps_positive [OF 1] p have pos: "0 < k" by auto
    from assms(2) c have "c \<notin> step_name ` set (lag_plan st cs)"
      by (auto simp: generated_names_plan)
    from run_steps_untouched [OF 1 this] s have s': "map_of X' c = Some s" by simp
    from pos have d: "dtype (shift s k) = shifted_dtype (dtype s)" by (simp add: dtype_shift)
    have e: "cells (shift s k) ! i =
               (if i < nat k then None
                else map_option (shift_value (dtype s)) (cells s ! (i - nat k))) \<and>
             ((dtype s = Int64 \<longrightarrow>
                 (\<forall>v. cells s ! (i - nat k) = Some (PInt v) \<longrightarrow> \<bar>v\<bar> \<le> 2 ^ 53)) \<longrightarrow>
              same_cell (cells (shift s k) ! i)
                (if i < nat k then None else cells s ! (i - nat k)))"
      if "i < length (cells s)" for i
    proof (cases "i < nat k")
      case True
      with cells_shift_nth [OF pos that] show ?thesis by simp
    next
      case False
      with cells_shift_nth [OF pos that]
        same_cell_shift_value [of "dtype s" "cells s ! (i - nat k)"]
      show ?thesis by simp
    qed
    then have e': "\<forall>i < length (cells s).
        cells (shift s k) ! i =
          (if i < nat k then None
           else map_option (shift_value (dtype s)) (cells s ! (i - nat k))) \<and>
        ((dtype s = Int64 \<longrightarrow>
            (\<forall>v. cells s ! (i - nat k) = Some (PInt v) \<longrightarrow> \<bar>v\<bar> \<le> 2 ^ 53)) \<longrightarrow>
         same_cell (cells (shift s k) ! i)
           (if i < nat k then None else cells s ! (i - nat k)))"
      by blast
    from g have g': "map_of X' (c @ ''_LAG-'' @ str_int k) = Some (shift s k)"
      by (simp add: lag_name_def)
    have l: "length (cells (shift s k)) = length (cells s)" by (rule length_shift)
    show ?thesis
      by (rule exI [of _ s], rule exI [of _ "shift s k"]) (intro conjI s s' g' d l e')
  qed
  from a b c show ?thesis by blast
qed

theorem generated_column_is_shifted_source_counterexample:
  "transform chained_transformer chained_frame =
     Inr (chained_transformer
            \<lparr>new_columns := [''a_LAG-1'', ''a_LAG-1_LAG-1_LAG-1'', ''a_LAG-1_LAG-1''],
             column_dtype_map :=
               [(''a_LAG-1'', Int64), (''a_LAG-1_LAG-1_LAG-1'', Int64),
                (''a_LAG-1_LAG-1'', Float64)]\<rparr>,
          chained_result) \<and>
   cells (the (map_of chained_result (lag_name ''a_LAG-1'' 1))) ! 1 \<noteq>
     cells (the (map_of chained_frame ''a_LAG-1'')) ! (1 - nat 1) \<and>
   cells (the (map_of chained_result (lag_name ''a_LAG-1_LAG-1'' 1))) ! 1 \<noteq>
     cells (the (map_of chained_result ''a_LAG-1_LAG-1'')) ! (1 - nat 1) \<and>
   \<not> same_cell (cells (the (map_of chained_result (lag_name ''a_LAG-1'' 1))) ! 1)
     (cells (the (map_of chained_frame ''a_LAG-1'')) ! (1 - nat 1)) \<and>
   \<not> same_cell (cells (the (map_of chained_result (lag_name ''a_LAG-1_LAG-1'' 1))) ! 1)
     (cells (the (map_of chained_result ''a_LAG-1_LAG-1'')) ! (1 - nat 1)) \<and>
   transform (lag_one (Some [''x'']) False) big_frame =
     Inr ((lag_one (Some [''x'']) False)
            \<lparr>new_columns := [''x_LAG-1''], column_dtype_map := [(''x_LAG-1'', Int64)]\<rparr>,
          big_frame @
          [(''x_LAG-1'', \<lparr>dtype = Float64,
              cells = [None, Some (PFloat 9007199254740992),
                       Some (PFloat 9223372036854775808)]\<rparr>)]) \<and>
   cells (the (map_of big_frame ''x'')) ! (1 - nat 1) = Some (PInt 9007199254740993) \<and>
   \<not> same_cell (Some (PFloat 9007199254740992))
     (cells (the (map_of big_frame ''x'')) ! (1 - nat 1))"
  by code_simp

theorem generated_column_is_shifted_source_witness:
  "generate_columns lag_test_transformer lag_test_frame [''x1'', ''x2''] =
     Inr (lag_test_transformer\<lparr>new_columns := [''x1_LAG-2'', ''x2_LAG-2''],
            column_dtype_map := [(''x1_LAG-2'', Int64), (''x2_LAG-2'', Int64)]\<rparr>,
          lag_test_result) \<and>
   set (generated_names lag_test_transformer [''x1'', ''x2'']) \<inter> set [''x1'', ''x2''] = {} \<and>
   transform lag_test_transformer lag_test_frame =
     Inr (lag_test_transformer\<lparr>new_columns := [''x1_LAG-2'', ''x2_LAG-2''],
            column_dtype_map := [(''x1_LAG-2'', Int64), (''x2_LAG-2'', Int64)]\<rparr>,
          lag_test_result) \<and>
   map_of lag_test_result (''x1'' @ ''_LAG-'' @ str_int 2) =
     Some \<lparr>dtype = Float64, cells = [None, None, Some (PFloat 1), Some (PFloat 2), Some (PFloat 3)]\<rparr> \<and>
   same_cell (Some (PFloat 1)) (cells (the (map_of lag_test_frame ''x1'')) ! (2 - nat 2))"
proof -
  have h1: "generate_columns lag_test_transformer lag_test_frame [''x1'', ''x2''] =
     Inr (lag_test_transformer\<lparr>new_columns := [''x1_LAG-2'', ''x2_LAG-2''],
            column_dtype_map := [(''x1_LAG-2'', Int64), (''x2_LAG-2'', Int64)]\<rparr>,
          lag_test_result)"
    by code_simp
  have h2: "set (generated_names lag_test_transformer [''x1'', ''x2'']) \<inter> set [''x1'', ''x2''] = {}"
    by code_simp
  have h3: "\<not> drop_na_rows lag_test_transformer \<and> \<not> drop_original_columns lag_test_transformer \<and>
     shift_columns lag_test_transformer = Some [''x1'', ''x2'']"
    by code_simp
  note T = generated_column_is_shifted_source [OF h1 h2]
  note t = mp [OF conjunct1 [OF T] h3]
  have h4: "map_of lag_test_result (''x1'' @ ''_LAG-'' @ str_int 2) =
     Some \<lparr>dtype = Float64, cells = [None, None, Some (PFloat 1), Some (PFloat 2), Some (PFloat 3)]\<rparr>"
    by code_simp
  have h5: "same_cell (Some (PFloat 1)) (cells (the (map_of lag_test_frame ''x1'')) ! (2 - nat 2))"
    by code_simp
  show ?thesis by (intro conjI h1 h2 t h4 h5)
qed

section \<open>Claims C10 and C4: what a transform leaves in place and what it drops\<close>

lemma set_update_subset: "set (AList.update k v al) \<subseteq> insert (k, v) (set al)"
  by (induction al) auto

lemma wf_loc_set:
  assumes "wf_frame X" and "X \<noteq> []" and "length (cells s) = nrows X"
  shows "wf_frame (loc_set X n s) \<and> nrows (loc_set X n s) = nrows X"
proof -
  from assms(2) obtain p X0 where X: "X = p # X0" by (cases X) auto
  with assms(1,3) have n: "nrows (loc_set X n s) = nrows X"
    by (simp add: nrows_def loc_set_def)
  from assms(1) have "distinct (columns (loc_set X n s))"
    by (simp add: wf_frame_def columns_def loc_set_def distinct_update)
  moreover have "list_all (\<lambda>p. length (cells (snd p)) = nrows X) (loc_set X n s)"
    using assms(1,3) set_update_subset [of n s X]
    by (auto simp: wf_frame_def list_all_iff loc_set_def)
  ultimately show ?thesis using n by (simp add: wf_frame_def)
qed

lemma wf_column_length: "wf_frame X \<Longrightarrow> map_of X c = Some s \<Longrightarrow> length (cells s) = nrows X"
proof -
  assume wf: "wf_frame X" and "map_of X c = Some s"
  then have "(c, s) \<in> set X" by (simp add: map_of_SomeD)
  with wf show ?thesis by (fastforce simp: wf_frame_def list_all_iff)
qed

lemma run_steps_wf:
  "run_steps st X ps = Inr (st', X') \<Longrightarrow> wf_frame X \<Longrightarrow> wf_frame X' \<and> nrows X' = nrows X"
proof (induction ps arbitrary: st X)
  case Nil
  then show ?case by simp
next
  case (Cons p ps)
  obtain c k where p: "p = (c, k)" by (cases p)
  from Cons.prems(1) obtain st1 X1 where 1: "lag_step st X c k = Inr (st1, X1)"
    and 2: "run_steps st1 X1 ps = Inr (st', X')"
    unfolding p run_steps_Cons_Inr by blast
  from 1 obtain s where s: "map_of X c = Some s" and X1: "X1 = loc_set X (lag_name c k) (shift s k)"
    by (auto simp: lag_step_Inr)
  from s have "X \<noteq> []" by auto
  moreover from wf_column_length [OF Cons.prems(2) s]
  have "length (cells (shift s k)) = nrows X" by (simp add: length_shift)
  ultimately have "wf_frame X1 \<and> nrows X1 = nrows X"
    unfolding X1 using Cons.prems(2) by (intro wf_loc_set)
  with Cons.IH [OF 2] show ?case by simp
qed

text \<open>
  Claim C10, amended. When neither rows nor source columns are dropped, a transform call
  that returns leaves every column whose name is not a generated name as it was, keeps the
  columns that were there at their positions, and keeps the row count (of a well-formed
  frame). As stated in the claim, for every column present before the call, this fails: the
  loop assigns under the generated name without looking whether the frame has such a column
  already, and a column of that name is overwritten.
\<close>

theorem transform_without_drops_only_adds:
  assumes "shift_columns st = Some cs" and "\<not> drop_na_rows st"
    and "\<not> drop_original_columns st" and "transform st X = Inr (st', X')"
  shows "(\<forall>n s. map_of X n = Some s \<and> n \<notin> set (generated_names st cs) \<longrightarrow>
            map_of X' n = Some s) \<and>
         (\<exists>ys. columns X' = columns X @ ys) \<and>
         (wf_frame X \<longrightarrow> wf_frame X' \<and> nrows X' = nrows X)"
proof -
  from generate_columns_config [of st X cs] have cfg: "same_config st (state_after (run_steps st X (lag_plan st cs)))"
    by (simp add: generate_columns_steps)
  from assms cfg have 1: "run_steps st X (lag_plan st cs) = Inr (st', X')"
    by (auto simp: transform_Inr drop_na_and_cast_Inr drop_originals_Inr state_after_def
        same_config_def)
  have a: "map_of X' n = Some s"
    if "map_of X n = Some s \<and> n \<notin> set (generated_names st cs)" for n s
    using run_steps_untouched [OF 1, of n] that by (simp add: generated_names_plan)
  from a run_steps_columns_prefix [OF 1] run_steps_wf [OF 1] show ?thesis by blast
qed

lemma map_of_filter_notin:
  "map_of (filter (\<lambda>p. fst p \<notin> A) X) n = (if n \<in> A then None else map_of X n)"
  by (induction X) auto

text \<open>
  Claim C4, amended. With \<open>drop_original_columns\<close> set, the frame a transform call returns is
  the frame \<open>X2\<close> that generation and then row dropping and casting produced, without the
  columns named in \<open>shift_columns\<close>: these are all in \<open>X2\<close>, they are removed, and every other
  column of \<open>X2\<close> is kept as it is and in its order; every generated column whose name is not
  itself one of the source columns is still there. As stated in the claim, every generated
  column, this fails: a generated column that is also a source column is dropped.
\<close>

theorem drop_original_columns_comes_last:
  assumes "shift_columns st = Some cs" and "drop_original_columns st"
    and "transform st X = Inr (st', X')"
  shows "\<exists>X1 X2. generate_columns st X cs = Inr (st', X1) \<and>
           drop_na_and_cast st' X1 = Inr (st', X2) \<and>
           set cs \<subseteq> set (columns X2) \<and>
           X' = filter (\<lambda>p. fst p \<notin> set cs) X2 \<and>
           columns X' = filter (\<lambda>n. n \<notin> set cs) (columns X2) \<and>
           (\<forall>n. map_of X' n = (if n \<in> set cs then None else map_of X2 n)) \<and>
           (\<forall>g \<in> set (generated_names st cs). g \<notin> set cs \<longrightarrow> g \<in> set (columns X'))"
proof -
  from assms(1,3) obtain X1 X2 where 1: "run_steps st X (lag_plan st cs) = Inr (st', X1)"
    and 2: "drop_na_and_cast st' X1 = Inr (st', X2)"
    and 3: "drop_originals st' X2 cs = Inr (st', X')"
    by (auto simp: transform_Inr)
  from generate_columns_config [of st X cs] 1 have cfg: "same_config st st'"
    by (simp add: generate_columns_steps state_after_def)
  with assms(2) 3 have sub: "set cs \<subseteq> set (columns X2)"
    and X': "X' = filter (\<lambda>p. fst p \<notin> set cs) X2"
    by (auto simp: drop_originals_Inr drop_columns_Inr same_config_def)
  from X' have cols: "columns X' = filter (\<lambda>n. n \<notin> set cs) (columns X2)"
    by (simp add: columns_filter_notin)
  from 2 have "columns X2 = columns X1" by (rule drop_na_and_cast_columns)
  with run_steps_columns_set [OF 1]
  have "set (generated_names st cs) \<subseteq> set (columns X2)"
    by (simp add: generated_names_plan)
  with cols have "\<forall>g \<in> set (generated_names st cs). g \<notin> set cs \<longrightarrow> g \<in> set (columns X')"
    by auto
  with 1 2 sub X' cols show ?thesis
    by (auto simp: generate_columns_steps map_of_filter_notin)
qed

theorem transform_without_drops_only_adds_counterexample:
  "\<not> drop_na_rows (lag_one (Some [''x'']) False) \<and>
   \<not> drop_original_columns (lag_one (Some [''x'']) False) \<and>
   transform (lag_one (Some [''x'']) False) lagged_frame =
     Inr (lag_one (Some [''x'']) False
            \<lparr>new_columns := [''x_LAG-1''], column_dtype_map := [(''x_LAG-1'', Int64)]\<rparr>,
          [(''x'', \<lparr>dtype = Int64, cells = [Some (PInt 1), Some (PInt 2), Some (PInt 3)]\<rparr>),
           (''x_LAG-1'', \<lparr>dtype = Float64, cells = [None, Some (PFloat 1), Some (PFloat 2)]\<rparr>)]) \<and>
   map_of lagged_frame ''x_LAG-1'' =
     Some \<lparr>dtype = Int64, cells = [Some (PInt 7), Some (PInt 8), Some (PInt 9)]\<rparr> \<and>
   cells (the (map_of lagged_frame ''x_LAG-1'')) \<noteq> [None, Some (PFloat 1), Some (PFloat 2)]"
  by code_simp

theorem transform_without_drops_only_adds_witness:
  "shift_columns lag_test_transformer = Some [''x1'', ''x2''] \<and>
   \<not> drop_na_rows lag_test_transformer \<and>
   \<not> drop_original_columns lag_test_transformer \<and>
   transform lag_test_transformer lag_test_frame =
     Inr (lag_test_transformer\<lparr>new_columns := [''x1_LAG-2'', ''x2_LAG-2''],
            column_dtype_map := [(''x1_LAG-2'', Int64), (''x2_LAG-2'', Int64)]\<rparr>,
          lag_test_result) \<and>
   wf_frame lag_test_frame \<and> wf_frame lag_test_result \<and>
   nrows lag_test_result = nrows lag_test_frame"
proof -
  have h1: "shift_columns lag_test_transformer = Some [''x1'', ''x2'']" by code_simp
  have h2: "\<not> drop_na_rows lag_test_transformer" by code_simp
  have h3: "\<not> drop_original_columns lag_test_transformer" by code_simp
  have h4: "transform lag_test_transformer lag_test_frame =
     Inr (lag_test_transformer\<lparr>new_columns := [''x1_LAG-2'', ''x2_LAG-2''],
            column_dtype_map := [(''x1_LAG-2'', Int64), (''x2_LAG-2'', Int64)]\<rparr>,
          lag_test_result)"
    by code_simp
  have h5: "wf_frame lag_test_frame" by code_simp
  note T = transform_without_drops_only_adds [OF h1 h2 h3 h4]
  note t = mp [OF conjunct2 [OF conjunct2 [OF T]] h5]
  show ?thesis by (intro conjI h1 h2 h3 h4 h5 conjunct1 [OF t] conjunct2 [OF t])
qed

theorem drop_original_columns_comes_last_counterexample:
  "fit (lag_one None True) lagged_frame = lag_one (Some [''x'', ''x_LAG-1'']) True \<and>
   drop_original_columns (lag_one (Some [''x'', ''x_LAG-1'']) True) \<and>
   transform (lag_one (Some [''x'', ''x_LAG-1'']) True) lagged_frame =
     Inr (lag_one (Some [''x'', ''x_LAG-1'']) True
            \<lparr>new_columns := [''x_LAG-1'', ''x_LAG-1_LAG-1''],
             column_dtype_map := [(''x_LAG-1'', Int64), (''x_LAG-1_LAG-1'', Float64)]\<rparr>,
          [(''x_LAG-1_LAG-1'', \<lparr>dtype = Float64, cells = [None, None, Some (PFloat 1)]\<rparr>)]) \<and>
   ''x_LAG-1'' \<in> set (generated_names (lag_one (Some [''x'', ''x_LAG-1'']) True) [''x'', ''x_LAG-1'']) \<and>
   ''x_LAG-1'' \<notin> set (columns
      [(''x_LAG-1_LAG-1'', \<lparr>dtype = Float64, cells = [None, None, Some (PFloat 1)]\<rparr>)])"
  by code_simp

theorem drop_original_columns_comes_last_witness:
  "shift_columns (lag_test_transformer\<lparr>drop_original_columns := True\<rparr>) = Some [''x1'', ''x2''] \<and>
   drop_original_columns (lag_test_transformer\<lparr>drop_original_columns := True\<rparr>) \<and>
   transform (lag_test_transformer\<lparr>drop_original_columns := True\<rparr>) lag_test_frame =
     Inr (lag_test_transformer\<lparr>drop_original_columns := True,
            new_columns := [''x1_LAG-2'', ''x2_LAG-2''],
            column_dtype_map := [(''x1_LAG-2'', Int64), (''x2_LAG-2'', Int64)]\<rparr>,
          [(''date'', \<lparr>dtype = Object,
              cells = [Some (PObj ''2022-09-18''), Some (PObj ''2022-09-19''),
                       Some (PObj ''2022-09-20''), Some (PObj ''2022-09-21''),
                       Some (PObj ''2022-09-22'')]\<rparr>),
           (''x1_LAG-2'', \<lparr>dtype = Float64,
              cells = [None, None, Some (PFloat 1), Some (PFloat 2), Some (PFloat 3)]\<rparr>),
           (''x2_LAG-2'', \<lparr>dtype = Float64,
              cells = [None, None, Some (PFloat 6), Some (PFloat 7), Some (PFloat 8)]\<rparr>)]) \<and>
   map_of
     [(''date'', \<lparr>dtype = Object,
              cells = [Some (PObj ''2022-09-18''), Some (PObj ''2022-09-19''),
                       Some (PObj ''2022-09-20''), Some (PObj ''2022-09-21''),
                       Some (PObj ''2022-09-22'')]\<rparr>),
           (''x1_LAG-2'', \<lparr>dtype = Float64,
              cells = [None, None, Some (PFloat 1), Some (PFloat 2), Some (PFloat 3)]\<rparr>),
           (''x2_LAG-2'', \<lparr>dtype = Float64,
              cells = [None, None, Some (PFloat 6), Some (PFloat 7), Some (PFloat 8)]\<rparr>)] ''x1'' = None"
proof -
  let ?st = "lag_test_transformer\<lparr>drop_original_columns := True\<rparr>"
  let ?R = "[(''date'', \<lparr>dtype = Object,
              cells = [Some (PObj ''2022-09-18''), Some (PObj ''2022-09-19''),
                       Some (PObj ''2022-09-20''), Some (PObj ''2022-09-21''),
                       Some (PObj ''2022-09-22'')]\<rparr>),
           (''x1_LAG-2'', \<lparr>dtype = Float64,
              cells = [None, None, Some (PFloat 1), Some (PFloat 2), Some (PFloat 3)]\<rparr>),
           (''x2_LAG-2'', \<lparr>dtype = Float64,
              cells = [None, None, Some (PFloat 6), Some (PFloat 7), Some (PFloat 8)]\<rparr>)]"
  have h1: "shift_columns ?st = Some [''x1'', ''x2'']" by code_simp
  have h2: "drop_original_columns ?st" by code_simp
  have h3: "transform ?st lag_test_frame =
     Inr (lag_test_transformer\<lparr>drop_original_columns := True,
            new_columns := [''x1_LAG-2'', ''x2_LAG-2''],
            column_dtype_map := [(''x1_LAG-2'', Int64), (''x2_LAG-2'', Int64)]\<rparr>, ?R)"
    by code_simp
  from drop_original_columns_comes_last [OF h1 h2 h3]
  obtain X2 where "\<forall>n. map_of ?R n = (if n \<in> set [''x1'', ''x2''] then None else map_of X2 n)"
    by blast
  then have "map_of ?R ''x1'' = (if ''x1'' \<in> set [''x1'', ''x2''] then None else map_of X2 ''x1'')"
    by (rule spec)
  then have h4: "map_of ?R ''x1'' = None" by simp
  show ?thesis by (intro conjI h1 h2 h3 h4)
qed

section \<open>Claims C8 and C9: the captured columns and the two trackers\<close>

lemma transform_state:
  "shift_columns st = Some cs \<Longrightarrow>
     state_after (transform st X) = state_after (generate_columns st X cs)"
  by (auto simp: transform_def state_after_def drop_na_and_cast_def drop_originals_def
      split: sum.splits prod.splits)

lemma generated_names_fit: "generated_names (fit st X) cs = generated_names st cs"
  by (simp add: generated_names_def lag_periods_def fit_def)

lemma transform_new_columns:
  assumes "shift_columns st = Some cs" and "transform st X = Inr (st', X')"
  shows "new_columns st' = new_columns st @ generated_names st cs"
proof -
  from assms obtain X1 where "run_steps st X (lag_plan st cs) = Inr (st', X1)"
    by (rule transform_columns)
  from run_steps_new_columns [OF this] show ?thesis by (simp add: generated_names_plan)
qed

text \<open>
  Claim C8. When \<open>shift_columns\<close> was not supplied, \<open>fit\<close> sets it to the column names of the
  fitted frame, in the frame's order, and changes nothing else; when it is set, \<open>fit\<close> changes
  nothing. The result depends on the column names of the frame only, not on any cell (the
  two frames may even hold cells of different types). A second \<open>fit\<close>, on whatever frame, does
  not capture again. A later \<open>transform\<close>, on whatever frame \<open>Z\<close>, leaves \<open>shift_columns\<close> as it
  is, whether it returns or raises, and when it returns it has generated the names of the
  columns captured at fit time, not of the columns of \<open>Z\<close>.
\<close>

theorem fit_captures_columns_once:
  "(shift_columns st = None \<longrightarrow> fit st X = st\<lparr>shift_columns := Some (columns X)\<rparr>) \<and>
   (shift_columns st \<noteq> None \<longrightarrow> fit st X = st) \<and>
   (columns X = columns Y \<longrightarrow> fit st X = fit st Y) \<and>
   fit (fit st X) Y = fit st X \<and>
   shift_columns (state_after (transform (fit st X) Z)) = shift_columns (fit st X) \<and>
   (\<forall>st' Z'. shift_columns st = None \<and> transform (fit st X) Z = Inr (st', Z') \<longrightarrow>
      shift_columns st' = Some (columns X) \<and>
      new_columns st' = new_columns st @ generated_names st (columns X))"
proof -
  have a: "shift_columns (state_after (transform (fit st X) Z)) = shift_columns (fit st X)"
    using transform_config [of "fit st X" Z] by (simp add: same_config_def)
  have b: "shift_columns st' = Some (columns X) \<and>
      new_columns st' = new_columns st @ generated_names st (columns X)"
    if "shift_columns st = None \<and> transform (fit st X) Z = Inr (st', Z')" for st' Z'
  proof -
    from that have f: "shift_columns (fit st X) = Some (columns X)"
      and n: "new_columns (fit st X) = new_columns st"
      by (simp_all add: fit_def)
    from that a have "shift_columns st' = Some (columns X)"
      by (simp add: state_after_def f)
    moreover from that have "transform (fit st X) Z = Inr (st', Z')" by simp
    from transform_new_columns [OF f this] n
    have "new_columns st' = new_columns st @ generated_names st (columns X)"
      by (simp add: generated_names_fit)
    ultimately show ?thesis by simp
  qed
  have c: "fit (fit st X) Y = fit st X" by (simp add: fit_def)
  have d: "columns X = columns Y \<longrightarrow> fit st X = fit st Y" by (simp add: fit_def)
  have e: "shift_columns st = None \<longrightarrow> fit st X = st\<lparr>shift_columns := Some (columns X)\<rparr>"
    by (simp add: fit_def)
  have f: "shift_columns st \<noteq> None \<longrightarrow> fit st X = st" by (simp add: fit_def)
  from a b c d e f show ?thesis by blast
qed

lemma keys_update:
  "set (map fst (AList.update k v al)) = insert k (set (map fst al))"
  by (simp add: dom_update)

lemma lag_step_grows:
  "(\<exists>ys. new_columns (state_after (lag_step st X c k)) = new_columns st @ ys) \<and>
   set (map fst (column_dtype_map st)) \<subseteq>
     set (map fst (column_dtype_map (state_after (lag_step st X c k))))"
proof (cases "lag_step st X c k")
  case (Inl r)
  obtain e st1 X1 where r: "r = (e, st1, X1)" by (cases r)
  from Inl r have "st1 = st \<or> st1 = st\<lparr>new_columns := new_columns st @ [lag_name c k]\<rparr>"
    by (auto simp: lag_step_Inl split: if_splits)
  then have "(\<exists>ys. new_columns st1 = new_columns st @ ys) \<and>
     column_dtype_map st1 = column_dtype_map st"
    by auto
  with Inl r show ?thesis by (simp add: state_after_def)
next
  case (Inr q)
  obtain st1 X1 where q: "q = (st1, X1)" by (cases q)
  from Inr q have "\<exists>t. new_columns st1 = new_columns st @ [lag_name c k] \<and>
    column_dtype_map st1 = AList.update (lag_name c k) t (column_dtype_map st)"
    by (auto simp: lag_step_Inr)
  then obtain t where n: "new_columns st1 = new_columns st @ [lag_name c k]"
    and m: "column_dtype_map st1 = AList.update (lag_name c k) t (column_dtype_map st)"
    by blast
  from n have "\<exists>ys. new_columns st1 = new_columns st @ ys" by blast
  moreover have "set (map fst (column_dtype_map st)) \<subseteq> set (map fst (column_dtype_map st1))"
    unfolding m keys_update by blast
  ultimately have "\<exists>ys. new_columns st1 = new_columns st @ ys"
    and "set (map fst (column_dtype_map st)) \<subseteq> set (map fst (column_dtype_map st1))"
    by blast+
  with Inr q show ?thesis by (simp add: state_after_def)
qed

lemma run_steps_grows:
  "(\<exists>ys. new_columns (state_after (run_steps st X ps)) = new_columns st @ ys) \<and>
   set (map fst (column_dtype_map st)) \<subseteq>
     set (map fst (column_dtype_map (state_after (run_steps st X ps))))"
proof (induction ps arbitrary: st X)
  case Nil
  show ?case by (simp add: state_after_def)
next
  case (Cons p ps)
  obtain c k where p: "p = (c, k)" by (cases p)
  show ?case
  proof (cases "lag_step st X c k")
    case (Inl r)
    with lag_step_grows [of st X c k] p show ?thesis by simp
  next
    case (Inr q)
    obtain st1 X1 where q: "q = (st1, X1)" by (cases q)
    from lag_step_grows [of st X c k] Inr q
    obtain ys where 1: "new_columns st1 = new_columns st @ ys"
      and 2: "set (map fst (column_dtype_map st)) \<subseteq> set (map fst (column_dtype_map st1))"
      by (auto simp: state_after_def)
    from Cons.IH [of st1 X1] obtain zs
      where 3: "new_columns (state_after (run_steps st1 X1 ps)) = new_columns st1 @ zs"
      and 4: "set (map fst (column_dtype_map st1)) \<subseteq>
        set (map fst (column_dtype_map (state_after (run_steps st1 X1 ps))))"
      by blast
    from 1 3 have "new_columns (state_after (run_steps st1 X1 ps)) = new_columns st @ (ys @ zs)"
      by simp
    with 2 4 Inr q p show ?thesis by (simp only: run_steps.simps sum.case prod.case) blast
  qed
qed

lemma transform_grows:
  "(\<exists>ys. new_columns (state_after (transform st X)) = new_columns st @ ys) \<and>
   set (map fst (column_dtype_map st)) \<subseteq>
     set (map fst (column_dtype_map (state_after (transform st X))))"
proof (cases "shift_columns st")
  case None
  then show ?thesis by (simp add: transform_def state_after_def)
next
  case (Some cs)
  with run_steps_grows [of st X "lag_plan st cs"] show ?thesis
    by (simp add: transform_state generate_columns_steps)
qed

lemma run_steps_keys:
  "run_steps st X ps = Inr (st', X') \<Longrightarrow>
     set (map fst (column_dtype_map st')) =
       set (map fst (column_dtype_map st)) \<union> step_name ` set ps \<and>
     (distinct (map fst (column_dtype_map st)) \<longrightarrow> distinct (map fst (column_dtype_map st')))"
proof (induction ps arbitrary: st X)
  case Nil
  then show ?case by simp
next
  case (Cons p ps)
  obtain c k where p: "p = (c, k)" by (cases p)
  from Cons.prems(1) obtain st1 X1 where 1: "lag_step st X c k = Inr (st1, X1)"
    and 2: "run_steps st1 X1 ps = Inr (st', X')"
    unfolding p run_steps_Cons_Inr by blast
  from 1 have "\<exists>t. column_dtype_map st1 = AList.update (lag_name c k) t (column_dtype_map st)"
    by (auto simp: lag_step_Inr)
  then obtain t where m: "column_dtype_map st1 = AList.update (lag_name c k) t (column_dtype_map st)"
    by blast
  have "set (map fst (column_dtype_map st1)) =
      insert (lag_name c k) (set (map fst (column_dtype_map st)))"
    unfolding m keys_update by simp
  moreover have "distinct (map fst (column_dtype_map st)) \<longrightarrow> distinct (map fst (column_dtype_map st1))"
    unfolding m by (simp add: distinct_update)
  ultimately have "set (map fst (column_dtype_map st1)) =
      insert (lag_name c k) (set (map fst (column_dtype_map st)))"
    and "distinct (map fst (column_dtype_map st)) \<longrightarrow> distinct (map fst (column_dtype_map st1))"
    by blast+
  with Cons.IH [OF 2] p show ?case by (auto simp: step_name_def)
qed

lemma run_calls_grows:
  "(\<exists>ys. new_columns (fst (run_calls st calls)) = new_columns st @ ys) \<and>
   set (map fst (column_dtype_map st)) \<subseteq>
     set (map fst (column_dtype_map (fst (run_calls st calls))))"
proof (induction calls arbitrary: st)
  case Nil
  show ?case by simp
next
  case (Cons c calls)
  show ?case
  proof (cases c)
    case (Fit X)
    have "new_columns (fit st X) = new_columns st"
      and "column_dtype_map (fit st X) = column_dtype_map st"
      by (simp_all add: fit_def)
    with Cons.IH [of "fit st X"] Fit show ?thesis by (simp add: split_beta)
  next
    case (Transform X)
    let ?st1 = "state_after (transform st X)"
    from transform_grows [of st X] obtain ys where 1: "new_columns ?st1 = new_columns st @ ys"
      and 2: "set (map fst (column_dtype_map st)) \<subseteq> set (map fst (column_dtype_map ?st1))"
      by blast
    from Cons.IH [of ?st1] obtain zs
      where 3: "new_columns (fst (run_calls ?st1 calls)) = new_columns ?st1 @ zs"
      and 4: "set (map fst (column_dtype_map ?st1)) \<subseteq>
        set (map fst (column_dtype_map (fst (run_calls ?st1 calls))))"
      by blast
    from 1 3 have "new_columns (fst (run_calls ?st1 calls)) = new_columns st @ (ys @ zs)" by simp
    with 2 4 Transform show ?thesis by (auto simp: split_beta Let_def)
  qed
qed

text \<open>
  Claim C9. One generation appends the generated name to \<open>new_columns\<close> and sets that name's
  entry of \<open>column_dtype_map\<close> to the dtype the source column has at that moment, whether or
  not the name had an entry (which keeps its place in the dict); no other entry changes.
  A transform call, returning or raising, only extends \<open>new_columns\<close> and only adds keys to
  \<open>column_dtype_map\<close>; when it returns, every generated name has been appended. The same
  holds across any sequence of fit and transform calls on the instance.
\<close>

theorem trackers_only_grow:
  "(\<forall>st' ser. generate_lag_column_and_update_dtype_map st c g k X = Inr (st', ser) \<longrightarrow>
      new_columns st' = new_columns st @ [g] \<and>
      (\<exists>s. map_of X c = Some s \<and> map_of (column_dtype_map st') g = Some (dtype s)) \<and>
      (\<forall>h. h \<noteq> g \<longrightarrow> map_of (column_dtype_map st') h = map_of (column_dtype_map st) h) \<and>
      map fst (column_dtype_map st') =
        (if g \<in> set (map fst (column_dtype_map st)) then map fst (column_dtype_map st)
         else map fst (column_dtype_map st) @ [g])) \<and>
   (\<exists>ys. new_columns (state_after (transform st Y)) = new_columns st @ ys) \<and>
   set (map fst (column_dtype_map st)) \<subseteq>
     set (map fst (column_dtype_map (state_after (transform st Y)))) \<and>
   (\<forall>cs st' Y'. shift_columns st = Some cs \<and> transform st Y = Inr (st', Y') \<longrightarrow>
      new_columns st' = new_columns st @ generated_names st cs \<and>
      set (map fst (column_dtype_map st')) =
        set (map fst (column_dtype_map st)) \<union> set (generated_names st cs)) \<and>
   (\<forall>calls. (\<exists>ys. new_columns (fst (run_calls st calls)) = new_columns st @ ys) \<and>
      set (map fst (column_dtype_map st)) \<subseteq>
        set (map fst (column_dtype_map (fst (run_calls st calls)))))"
proof -
  have a: "new_columns st' = new_columns st @ [g] \<and>
      (\<exists>s. map_of X c = Some s \<and> map_of (column_dtype_map st') g = Some (dtype s)) \<and>
      (\<forall>h. h \<noteq> g \<longrightarrow> map_of (column_dtype_map st') h = map_of (column_dtype_map st) h) \<and>
      map fst (column_dtype_map st') =
        (if g \<in> set (map fst (column_dtype_map st)) then map fst (column_dtype_map st)
         else map fst (column_dtype_map st) @ [g])"
    if "generate_lag_column_and_update_dtype_map st c g k X = Inr (st', ser)" for st' ser
  proof -
    from that obtain s where s: "map_of X c = Some s"
      and st': "st' = st\<lparr>new_columns := new_columns st @ [g],
                 column_dtype_map := AList.update g (dtype s) (column_dtype_map st)\<rparr>"
      by (auto simp: generate_lag_column_and_update_dtype_map_def Let_def loc_get_def
          split: if_splits option.splits)
    from s show ?thesis
      unfolding st' by (simp add: update_conv' update_keys)
  qed
  have b: "new_columns st' = new_columns st @ generated_names st cs \<and>
      set (map fst (column_dtype_map st')) =
        set (map fst (column_dtype_map st)) \<union> set (generated_names st cs)"
    if "shift_columns st = Some cs \<and> transform st Y = Inr (st', Y')" for cs st' Y'
  proof -
    from that obtain X1 where 1: "run_steps st Y (lag_plan st cs) = Inr (st', X1)"
      by (auto elim: transform_columns)
    from run_steps_keys [OF 1] run_steps_new_columns [OF 1] show ?thesis
      by (simp add: generated_names_plan)
  qed
  from a b transform_grows [of st Y] run_calls_grows [of st] show ?thesis
    by blast
qed

theorem fit_captures_columns_once_witness:
  "shift_columns (lag_one None False) = None \<and>
   fit (lag_one None False) lag_test_frame = lag_one (Some [''date'', ''x1'', ''x2'']) False \<and>
   transform (fit (lag_one None False) lag_test_frame) lag_test_result =
     Inr (state_after (transform (fit (lag_one None False) lag_test_frame) lag_test_result),
          frame_after (transform (fit (lag_one None False) lag_test_frame) lag_test_result)) \<and>
   columns lag_test_result = [''date'', ''x1'', ''x2'', ''x1_LAG-2'', ''x2_LAG-2''] \<and>
   new_columns (state_after (transform (fit (lag_one None False) lag_test_frame) lag_test_result)) =
     [''date_LAG-1'', ''x1_LAG-1'', ''x2_LAG-1'']"
proof -
  let ?st = "lag_one None False"
  let ?r = "transform (fit ?st lag_test_frame) lag_test_result"
  have h1: "shift_columns ?st = None" by code_simp
  have h2: "fit ?st lag_test_frame = lag_one (Some [''date'', ''x1'', ''x2'']) False"
    by code_simp
  have h3: "?r = Inr (state_after ?r, frame_after ?r)" by code_simp
  have h4: "columns lag_test_result = [''date'', ''x1'', ''x2'', ''x1_LAG-2'', ''x2_LAG-2'']"
    by code_simp
  have h5: "new_columns ?st @ generated_names ?st (columns lag_test_frame) =
     [''date_LAG-1'', ''x1_LAG-1'', ''x2_LAG-1'']"
    by code_simp
  from fit_captures_columns_once [of ?st lag_test_frame lag_test_frame lag_test_result] h1 h3
  have "new_columns (state_after ?r) = new_columns ?st @ generated_names ?st (columns lag_test_frame)"
    by blast
  with h5 have h6: "new_columns (state_after ?r) = [''date_LAG-1'', ''x1_LAG-1'', ''x2_LAG-1'']"
    by simp
  show ?thesis by (intro conjI h1 h2 h3 h4 h6)
qed

theorem trackers_only_grow_witness:
  "shift_columns used_transformer = Some [''x1'', ''x2''] \<and>
   transform used_transformer lag_test_frame =
     Inr (state_after (transform used_transformer lag_test_frame),
          frame_after (transform used_transformer lag_test_frame)) \<and>
   new_columns used_transformer = [''x1_LAG-2'', ''x2_LAG-2''] \<and>
   new_columns (state_after (transform used_transformer lag_test_frame)) =
     [''x1_LAG-2'', ''x2_LAG-2'', ''x1_LAG-2'', ''x2_LAG-2''] \<and>
   column_dtype_map used_transformer = [(''x1_LAG-2'', Object), (''x2_LAG-2'', Int64)] \<and>
   column_dtype_map (state_after (transform used_transformer lag_test_frame)) =
     [(''x1_LAG-2'', Int64), (''x2_LAG-2'', Int64)]"
proof -
  let ?r = "transform used_transformer lag_test_frame"
  have h1: "shift_columns used_transformer = Some [''x1'', ''x2'']" by code_simp
  have h2: "?r = Inr (state_after ?r, frame_after ?r)" by code_simp
  have h3: "new_columns used_transformer = [''x1_LAG-2'', ''x2_LAG-2'']" by code_simp
  have h4: "new_columns used_transformer @ generated_names used_transformer [''x1'', ''x2''] =
     [''x1_LAG-2'', ''x2_LAG-2'', ''x1_LAG-2'', ''x2_LAG-2'']"
    by code_simp
  have h5: "column_dtype_map used_transformer = [(''x1_LAG-2'', Object), (''x2_LAG-2'', Int64)]"
    by code_simp
  have h6: "column_dtype_map (state_after ?r) = [(''x1_LAG-2'', Int64), (''x2_LAG-2'', Int64)]"
    by code_simp
  from trackers_only_grow [where 'a = string, of used_transformer _ _ _ _ lag_test_frame] h1 h2
  have "new_columns (state_after ?r) =
     new_columns used_transformer @ generated_names used_transformer [''x1'', ''x2'']"
    by blast
  with h4 have h7: "new_columns (state_after ?r) =
     [''x1_LAG-2'', ''x2_LAG-2'', ''x1_LAG-2'', ''x2_LAG-2'']"
    by simp
  show ?thesis by (intro conjI h1 h2 h3 h7 h5 h6)
qed

section \<open>Claim C3: dropping the rows with missing values, then casting\<close>

lemma map_of_map_snd:
  "map_of (map (\<lambda>p. (fst p, f (snd p))) X) n = map_option f (map_of X n)"
  by (induction X) auto

lemma map_of_map_dep:
  "map_of (map (\<lambda>p. (fst p, f p)) X) n =
     (case map_of X n of None \<Rightarrow> None | Some s \<Rightarrow> Some (f (n, s)))"
  by (induction X) auto

lemma map_of_dropna:
  "map_of (dropna X) n =
     map_option (\<lambda>s. s\<lparr>cells := map (\<lambda>i. cells s ! i) (kept_rows X)\<rparr>) (map_of X n)"
  by (cases "map_of X n") (simp_all add: dropna_def Let_def kept_rows_def map_of_map_dep)

lemma kept_rows_complete:
  assumes "map_of X n = Some s" and "i \<in> set (kept_rows X)"
  shows "cells s ! i \<noteq> None"
proof -
  from assms(1) have "(n, s) \<in> set X" by (rule map_of_SomeD)
  moreover from assms(2) have "row_complete X i" by (simp add: kept_rows_def)
  ultimately show ?thesis by (fastforce simp: row_complete_def list_all_iff)
qed

lemma dropna_no_missing:
  assumes "map_of (dropna X) n = Some s"
  shows "None \<notin> set (cells s)"
proof -
  from assms obtain s0 where s0: "map_of X n = Some s0"
    and s: "s = s0\<lparr>cells := map (\<lambda>i. cells s0 ! i) (kept_rows X)\<rparr>"
    by (auto simp: map_of_dropna)
  have "None \<notin> set (map (\<lambda>i. cells s0 ! i) (kept_rows X))"
  proof
    assume "None \<in> set (map (\<lambda>i. cells s0 ! i) (kept_rows X))"
    then obtain i where "i \<in> set (kept_rows X)" and "cells s0 ! i = None" by auto
    with kept_rows_complete [OF s0] show False by blast
  qed
  then show ?thesis unfolding s by simp
qed

lemma map_of_dropna_keep: "map_of (dropna X) n = map_option (keep_rows X) (map_of X n)"
  by (cases "map_of X n") (simp_all add: map_of_dropna keep_rows_def)

lemma cast_map_of:
  assumes "distinct (map fst m)" and "cast_cols_dtypes_to_original m X = Inr X'"
  shows "case map_of X n of
           None \<Rightarrow> map_of X' n = None
         | Some s \<Rightarrow>
             (\<exists>s'. map_of X' n = Some s' \<and>
                (case map_of m n of None \<Rightarrow> s' = s | Some t \<Rightarrow> astype s t = Inr s'))"
  using assms
proof (induction m arbitrary: X)
  case Nil
  then show ?case by (cases "map_of X n") simp_all
next
  case (Cons p m)
  obtain col t where p: "p = (col, t)" by (cases p)
  from Cons.prems(2) p obtain s s' where s: "map_of X col = Some s" and a: "astype s t = Inr s'"
    and r: "cast_cols_dtypes_to_original m (loc_set X col s') = Inr X'"
    by (auto simp: loc_get_def split: option.splits sum.splits)
  from Cons.prems(1) p have d: "distinct (map fst m)" and col: "map_of m col = None"
    by (auto simp: map_of_eq_None_iff)
  note IH = Cons.IH [OF d r]
  show ?case
  proof (cases "n = col")
    case True
    with IH col s a p show ?thesis by (simp add: map_of_loc_set)
  next
    case False
    with IH p show ?thesis by (auto simp: map_of_loc_set split: option.splits)
  qed
qed

lemma transform_keys_distinct:
  assumes "distinct (map fst (column_dtype_map st))"
  shows "distinct (map fst (column_dtype_map (state_after (transform st X))))"
proof -
  have step: "distinct (map fst (column_dtype_map (state_after (lag_step st X c k))))"
    if "distinct (map fst (column_dtype_map st))" for st :: lag and X :: "'a series frame" and c k
  proof (cases "lag_step st X c k")
    case (Inl r)
    obtain e st1 X1 where r: "r = (e, st1, X1)" by (cases r)
    from Inl r have "column_dtype_map st1 = column_dtype_map st"
      by (auto simp: lag_step_Inl split: if_splits)
    with that Inl r show ?thesis by (simp add: state_after_def)
  next
    case (Inr q)
    obtain st1 X1 where q: "q = (st1, X1)" by (cases q)
    from Inr q have "\<exists>t. column_dtype_map st1 = AList.update (lag_name c k) t (column_dtype_map st)"
      by (auto simp: lag_step_Inr)
    with that have "distinct (map fst (column_dtype_map st1))"
      by (auto simp: distinct_update)
    with Inr q show ?thesis by (simp add: state_after_def)
  qed
  have steps: "distinct (map fst (column_dtype_map st)) \<Longrightarrow>
      distinct (map fst (column_dtype_map (state_after (run_steps st X ps))))"
    for st :: lag and X :: "'a series frame" and ps
  proof (induction ps arbitrary: st X)
    case Nil
    then show ?case by (simp add: state_after_def)
  next
    case (Cons p ps)
    obtain c k where p: "p = (c, k)" by (cases p)
    show ?case
    proof (cases "lag_step st X c k")
      case (Inl r)
      with step [OF Cons.prems, of X c k] p show ?thesis by simp
    next
      case (Inr q)
      obtain st1 X1 where q: "q = (st1, X1)" by (cases q)
      from step [OF Cons.prems, of X c k] Inr q
      have "distinct (map fst (column_dtype_map st1))" by (simp add: state_after_def)
      from Cons.IH [OF this, of X1] Inr q p show ?thesis by simp
    qed
  qed
  show ?thesis
  proof (cases "shift_columns st")
    case None
    with assms show ?thesis by (simp add: transform_def state_after_def)
  next
    case (Some cs)
    with steps [OF assms, of X "lag_plan st cs"] show ?thesis
      by (simp add: transform_state generate_columns_steps)
  qed
qed

lemma instance_keys_distinct:
  assumes "Lag_init n cols dna doc one = Inr st"
  shows "distinct (map fst (column_dtype_map (fst (run_calls st calls))))"
proof -
  have "distinct (map fst (column_dtype_map st)) \<Longrightarrow>
      distinct (map fst (column_dtype_map (fst (run_calls st calls))))" for st
  proof (induction calls arbitrary: st)
    case Nil
    then show ?case by simp
  next
    case (Cons c calls)
    show ?case
    proof (cases c)
      case (Fit X)
      from Cons.prems have "distinct (map fst (column_dtype_map (fit st X)))"
        by (simp add: fit_def)
      from Cons.IH [OF this] Fit show ?thesis by (simp add: split_beta)
    next
      case (Transform X)
      from Cons.IH [OF transform_keys_distinct [OF Cons.prems, of X]] Transform
      show ?thesis by (simp add: split_beta Let_def)
    qed
  qed
  moreover from assms have "column_dtype_map st = []"
    by (auto simp: Lag_init_def split: if_splits)
  ultimately show ?thesis by simp
qed

text \<open>
  A transform call on a fresh instance returns when the source columns exist in a well-formed
  frame, no generated name is a source column and the integer source columns hold numbers:
  the cast back of a shifted column to the dtype of its source then succeeds on every value.
\<close>

lemma map_values_succeeds:
  "\<forall>v \<in> set vs. \<exists>w. g v = Inr w \<Longrightarrow> \<exists>ws. map_values g vs = Inr ws"
  by (induction vs) auto

lemma cast_succeeds:
  assumes "distinct (map fst m)"
    and "\<forall>p \<in> set m. \<exists>s s'. map_of X (fst p) = Some s \<and> astype s (snd p) = Inr s'"
  shows "\<exists>X'. cast_cols_dtypes_to_original m X = Inr X'"
  using assms
proof (induction m arbitrary: X)
  case Nil
  show ?case by simp
next
  case (Cons p m)
  obtain col t where p: "p = (col, t)" by (cases p)
  from Cons.prems(2) p obtain s s' where s: "map_of X col = Some s" and a: "astype s t = Inr s'"
    by auto
  from Cons.prems(1) p have d: "distinct (map fst m)" and col: "col \<notin> fst ` set m" by auto
  have "\<forall>q \<in> set m. \<exists>s1 s2. map_of (loc_set X col s') (fst q) = Some s1 \<and>
      astype s1 (snd q) = Inr s2"
  proof
    fix q assume q: "q \<in> set m"
    with col have "fst q \<noteq> col" by auto
    with Cons.prems(2) q show "\<exists>s1 s2. map_of (loc_set X col s') (fst q) = Some s1 \<and>
      astype s1 (snd q) = Inr s2"
      by (simp add: map_of_loc_set)
  qed
  from Cons.IH [OF d this] s a p show ?case by (simp add: loc_get_def)
qed

lemma astype_shifted_back:
  assumes k: "0 < k" and W: "wf_frame W" and g: "map_of W n = Some (shift s k)"
    and obj: "dtype s = Int64 \<longrightarrow> (\<forall>x. Some (PObj x) \<notin> set (cells s))"
  shows "\<exists>g'. astype (keep_rows W (shift s k)) (dtype s) = Inr g'"
proof -
  let ?g = "keep_rows W (shift s k)"
  from k have dg: "dtype ?g = shifted_dtype (dtype s)"
    by (simp add: keep_rows_def dtype_shift)
  have "\<exists>w. convert_cell (dtype ?g) (dtype s) c = Inr w" if c: "c \<in> set (cells ?g)" for c
  proof (cases "dtype s = Int64")
    case False
    with dg show ?thesis by (simp add: convert_cell_def shifted_dtype_def)
  next
    case True
    from c obtain i where i: "i \<in> set (kept_rows W)" and ci: "c = cells (shift s k) ! i"
      by (auto simp: keep_rows_def)
    from kept_rows_complete [OF g i] ci have cn: "c \<noteq> None" by simp
    from i have "i < nrows W" by (simp add: kept_rows_def)
    with wf_column_length [OF W g] have il: "i < length (cells s)" by (simp add: length_shift)
    from cells_shift_nth [OF k il] ci cn have ik: "\<not> i < nat k"
      and cv: "c = map_option (shift_value Int64) (cells s ! (i - nat k))"
      using True by (auto split: if_splits)
    from il have "cells s ! (i - nat k) \<in> set (cells s)" by simp
    with obj True have no: "\<forall>x. cells s ! (i - nat k) \<noteq> Some (PObj x)" by metis
    from cv cn obtain v where v: "cells s ! (i - nat k) = Some v" by auto
    with no cv obtain q where "c = Some (PFloat q)"
      by (cases v) (auto simp: shift_value_def)
    with dg True show ?thesis
      by (simp add: convert_cell_def shifted_dtype_def float64_to_int64_def)
  qed
  then have "\<exists>ws. map_values (convert_cell (dtype ?g) (dtype s)) (cells ?g) = Inr ws"
    by (intro map_values_succeeds) blast
  then show ?thesis by (auto simp: astype_def)
qed

lemma transform_succeeds:
  assumes cs: "shift_columns st = Some cs" and n: "0 < n_periods st"
    and src: "set cs \<subseteq> set (columns X)" and wf: "wf_frame X"
    and fresh: "column_dtype_map st = []"
    and nc: "set (generated_names st cs) \<inter> set cs = {}"
    and obj: "\<forall>c \<in> set cs. \<forall>s. map_of X c = Some s \<longrightarrow> dtype s = Int64 \<longrightarrow>
               (\<forall>x. Some (PObj x) \<notin> set (cells s))"
  shows "\<exists>st' X'. transform st X = Inr (st', X')"
proof -
  let ?ps = "lag_plan st cs"
  from n src lag_periods_pos [OF n]
  have "\<forall>p \<in> set ?ps. 0 < snd p \<and> fst p \<in> set (columns X)"
    by (auto simp: lag_plan_set)
  from run_steps_succeeds [OF this] obtain st' W
    where 1: "run_steps st X ?ps = Inr (st', W)" by blast
  from run_steps_wf [OF 1 wf] have wfW: "wf_frame W" by simp
  from run_steps_columns_set [OF 1]
  have colsW: "set (columns W) = set (columns X) \<union> set (generated_names st cs)"
    by (simp add: generated_names_plan)
  from run_steps_keys [OF 1] fresh
  have keys: "set (map fst (column_dtype_map st')) = step_name ` set ?ps"
    and d: "distinct (map fst (column_dtype_map st'))" by simp_all
  from nc have nc': "\<forall>p \<in> set ?ps. \<forall>q \<in> set ?ps. step_name p \<noteq> fst q"
    by (auto simp: generated_names_plan lag_plan_set)
  note content = conjunct1 [OF run_steps_content [OF 1 nc']]
  have "\<forall>e \<in> set (column_dtype_map st').
      \<exists>s s'. map_of (dropna W) (fst e) = Some s \<and> astype s (snd e) = Inr s'"
  proof
    fix e assume e: "e \<in> set (column_dtype_map st')"
    then have "fst e \<in> set (map fst (column_dtype_map st'))" by simp
    with keys obtain p where p: "p \<in> set ?ps" and fe: "fst e = step_name p" by auto
    from content p obtain s where s: "map_of X (fst p) = Some s"
      and g: "map_of W (step_name p) = Some (shift s (snd p))"
      and t: "map_of (column_dtype_map st') (step_name p) = Some (dtype s)"
      by blast
    from d e have "map_of (column_dtype_map st') (fst e) = Some (snd e)" by simp
    with t fe have se: "snd e = dtype s" by simp
    from p have "fst p \<in> set cs" by (auto simp: lag_plan_set)
    with obj s have o: "dtype s = Int64 \<longrightarrow> (\<forall>x. Some (PObj x) \<notin> set (cells s))" by blast
    from run_steps_positive [OF 1] p have k: "0 < snd p" by blast
    from astype_shifted_back [OF k wfW g o] obtain g'
      where "astype (keep_rows W (shift s (snd p))) (dtype s) = Inr g'" by blast
    with g fe se
    show "\<exists>s s'. map_of (dropna W) (fst e) = Some s \<and> astype s (snd e) = Inr s'"
      by (simp add: map_of_dropna_keep)
  qed
  from cast_succeeds [OF d this] obtain X2
    where c: "cast_cols_dtypes_to_original (column_dtype_map st') (dropna W) = Inr X2" by blast
  define X3 where "X3 = (if drop_na_rows st' then X2 else W)"
  from c have 2: "drop_na_and_cast st' W = Inr (st', X3)"
    by (simp add: drop_na_and_cast_Inr X3_def)
  from cast_columns [OF c] colsW src have "set cs \<subseteq> set (columns X3)"
    by (auto simp: X3_def columns_dropna)
  then have "\<exists>X'. drop_originals st' X3 cs = Inr (st', X')"
    by (cases "drop_original_columns st'") (simp_all add: drop_originals_Inr drop_columns_Inr)
  with 1 2 show ?thesis
    by (auto simp: transform_Inr [OF cs])
qed

text \<open>
  Claim C3, amended. With \<open>drop_na_rows\<close> set, on an instance whose dict has one entry per key
  (as the dict of every instance has), a transform call that returns has generated the
  widened frame \<open>W\<close>, then kept of every column of \<open>W\<close> exactly the rows in which no column
  of \<open>W\<close> is missing, then cast every column that has an entry in \<open>column_dtype_map\<close> to the
  dtype recorded there, which converts its values (the others stay as they are), and last
  dropped the source columns if asked to. So no column of the returned frame has a missing
  value and every tracked column in it has its recorded dtype. When no generated name is a
  source column, the recorded dtype of the generated column \<open>c_LAG-k\<close> is the dtype the source
  column \<open>c\<close> has in the input frame, and the column is the cast to it of the kept rows of
  the shifted \<open>c\<close>.
  As stated in the claim, for every tracked generated column, the last part fails: a source
  column that is itself a generated column is overwritten by a float column before it is
  read, so the column generated from it is cast to float64 while the source column is an
  integer column in the input frame and, cast back, in the returned frame.
\<close>

theorem drop_na_rows_then_cast:
  assumes "shift_columns st = Some cs" and "drop_na_rows st"
    and "distinct (map fst (column_dtype_map st))"
    and "transform st X = Inr (st', X')"
  shows "\<exists>W. generate_columns st X cs = Inr (st', W) \<and>
           (\<forall>n. n \<in> set (columns X') \<longleftrightarrow>
              n \<in> set (columns W) \<and> (drop_original_columns st \<longrightarrow> n \<notin> set cs)) \<and>
           (\<forall>n s'. map_of X' n = Some s' \<longrightarrow>
              (\<exists>s. map_of W n = Some s \<and>
                 (case map_of (column_dtype_map st') n of
                    None \<Rightarrow> s' = keep_rows W s
                  | Some t \<Rightarrow> astype (keep_rows W s) t = Inr s' \<and> dtype s' = t) \<and>
                 length (cells s') = length (kept_rows W) \<and>
                 None \<notin> set (cells s'))) \<and>
           (set (generated_names st cs) \<inter> set cs = {} \<longrightarrow>
              (\<forall>c \<in> set cs. \<forall>k \<in> set (lag_periods st).
                 \<exists>s g. map_of X c = Some s \<and> map_of X' (lag_name c k) = Some g \<and>
                   astype (keep_rows W (shift s k)) (dtype s) = Inr g \<and>
                   dtype g = dtype s))"
proof -
  from assms(1,4) obtain W X2 where 1: "run_steps st X (lag_plan st cs) = Inr (st', W)"
    and 2: "drop_na_and_cast st' W = Inr (st', X2)"
    and 3: "drop_originals st' X2 cs = Inr (st', X')"
    by (auto simp: transform_Inr)
  from generate_columns_config [of st X cs] 1 have cfg: "same_config st st'"
    by (simp add: generate_columns_steps state_after_def)
  with assms(2) 2
  have c: "cast_cols_dtypes_to_original (column_dtype_map st') (dropna W) = Inr X2"
    by (simp add: drop_na_and_cast_Inr same_config_def)
  from run_steps_keys [OF 1] assms(3) have d: "distinct (map fst (column_dtype_map st'))"
    by simp
  note X2 = cast_map_of [OF d c]
  from 3 cfg have X': "map_of X' n =
      (if drop_original_columns st \<and> n \<in> set cs then None else map_of X2 n)" for n
    by (auto simp: drop_originals_Inr drop_columns_Inr map_of_filter_notin same_config_def)
  from 3 cfg cast_columns [OF c] have cols: "n \<in> set (columns X') \<longleftrightarrow>
      n \<in> set (columns W) \<and> (drop_original_columns st \<longrightarrow> n \<notin> set cs)" for n
    by (auto simp: drop_originals_Inr drop_columns_Inr columns_filter_notin columns_dropna
        same_config_def)
  have vals: "\<exists>s. map_of W n = Some s \<and>
                 (case map_of (column_dtype_map st') n of
                    None \<Rightarrow> s' = keep_rows W s
                  | Some t \<Rightarrow> astype (keep_rows W s) t = Inr s' \<and> dtype s' = t) \<and>
                 length (cells s') = length (kept_rows W) \<and>
                 None \<notin> set (cells s')" if "map_of X' n = Some s'" for n s'
  proof -
    from that X' [of n] have x2: "map_of X2 n = Some s'" by (simp split: if_splits)
    with X2 [of n] obtain s1 where s1: "map_of (dropna W) n = Some s1"
      and s': "case map_of (column_dtype_map st') n of
                 None \<Rightarrow> s' = s1 | Some t \<Rightarrow> astype s1 t = Inr s'"
      by (cases "map_of (dropna W) n") auto
    from s1 obtain s where s: "map_of W n = Some s" and s1': "s1 = keep_rows W s"
      by (cases "map_of W n") (auto simp: map_of_dropna_keep)
    have l1: "length (cells s1) = length (kept_rows W)" by (simp add: s1' keep_rows_def)
    note nm = dropna_no_missing [OF s1]
    show ?thesis
    proof (cases "map_of (column_dtype_map st') n")
      case None
      with s' s s1' l1 nm show ?thesis by simp
    next
      case (Some t)
      with s' have a: "astype s1 t = Inr s'" by simp
      from astype_Inr [OF a] l1 have "dtype s' = t" "length (cells s') = length (kept_rows W)"
        by simp_all
      with astype_no_missing [OF a nm] a s s1' Some show ?thesis by simp
    qed
  qed
  have src: "\<exists>s g. map_of X c = Some s \<and> map_of X' (lag_name c k) = Some g \<and>
      astype (keep_rows W (shift s k)) (dtype s) = Inr g \<and> dtype g = dtype s"
    if nc: "set (generated_names st cs) \<inter> set cs = {}" and c: "c \<in> set cs"
      and k: "k \<in> set (lag_periods st)" for c k
  proof -
    from nc have "\<forall>p \<in> set (lag_plan st cs). \<forall>q \<in> set (lag_plan st cs). step_name p \<noteq> fst q"
      by (auto simp: generated_names_plan lag_plan_set)
    from run_steps_content [OF 1 this] c k obtain s where s: "map_of X c = Some s"
      and g: "map_of W (lag_name c k) = Some (shift s k)"
      and t: "map_of (column_dtype_map st') (lag_name c k) = Some (dtype s)"
      by (fastforce simp: lag_plan_set step_name_def)
    from c k have "lag_name c k \<in> set (generated_names st cs)"
      by (auto simp: generated_names_set)
    with nc have "lag_name c k \<notin> set cs" by auto
    with X' [of "lag_name c k"] have e: "map_of X' (lag_name c k) = map_of X2 (lag_name c k)"
      by simp
    from g have "map_of (dropna W) (lag_name c k) = Some (keep_rows W (shift s k))"
      by (simp add: map_of_dropna_keep)
    with X2 [of "lag_name c k"] t obtain g' where g': "map_of X2 (lag_name c k) = Some g'"
      and a: "astype (keep_rows W (shift s k)) (dtype s) = Inr g'"
      by auto
    from astype_Inr [OF a] have "dtype g' = dtype s" by simp
    with s e g' a show ?thesis by simp
  qed
  from 1 have g: "generate_columns st X cs = Inr (st', W)"
    by (simp add: generate_columns_steps)
  from cols have cols': "\<forall>n. n \<in> set (columns X') \<longleftrightarrow>
      n \<in> set (columns W) \<and> (drop_original_columns st \<longrightarrow> n \<notin> set cs)"
    by blast
  from vals have vals': "\<forall>n s'. map_of X' n = Some s' \<longrightarrow>
      (\<exists>s. map_of W n = Some s \<and>
           (case map_of (column_dtype_map st') n of
              None \<Rightarrow> s' = keep_rows W s
            | Some t \<Rightarrow> astype (keep_rows W s) t = Inr s' \<and> dtype s' = t) \<and>
           length (cells s') = length (kept_rows W) \<and>
           None \<notin> set (cells s'))"
    by blast
  from src have src': "set (generated_names st cs) \<inter> set cs = {} \<longrightarrow>
      (\<forall>c \<in> set cs. \<forall>k \<in> set (lag_periods st).
         \<exists>s g. map_of X c = Some s \<and> map_of X' (lag_name c k) = Some g \<and>
           astype (keep_rows W (shift s k)) (dtype s) = Inr g \<and> dtype g = dtype s)"
    by blast
  from g cols' vals' src' show ?thesis by (intro exI [of _ W] conjI)
qed

theorem drop_na_rows_then_cast_counterexample:
  "fit lag_one_dropna lagged_frame =
     lag_one_dropna\<lparr>shift_columns := Some [''x'', ''x_LAG-1'']\<rparr> \<and>
   drop_na_rows (fit lag_one_dropna lagged_frame) \<and>
   transform (fit lag_one_dropna lagged_frame) lagged_frame =
     Inr (lag_one_dropna
            \<lparr>shift_columns := Some [''x'', ''x_LAG-1''],
             new_columns := [''x_LAG-1'', ''x_LAG-1_LAG-1''],
             column_dtype_map := [(''x_LAG-1'', Int64), (''x_LAG-1_LAG-1'', Float64)]\<rparr>,
          lagged_dropna_result) \<and>
   lag_name ''x_LAG-1'' 1 = ''x_LAG-1_LAG-1'' \<and>
   dtype (the (map_of lagged_dropna_result (lag_name ''x_LAG-1'' 1))) = Float64 \<and>
   dtype (the (map_of lagged_frame ''x_LAG-1'')) = Int64 \<and>
   dtype (the (map_of lagged_dropna_result ''x_LAG-1'')) = Int64 \<and>
   dtype (the (map_of lagged_dropna_result (lag_name ''x_LAG-1'' 1))) \<noteq>
     dtype (the (map_of lagged_frame ''x_LAG-1'')) \<and>
   dtype (the (map_of lagged_dropna_result (lag_name ''x_LAG-1'' 1))) \<noteq>
     dtype (the (map_of lagged_dropna_result ''x_LAG-1''))"
  by code_simp

theorem drop_na_rows_then_cast_witness:
  "shift_columns dropping_transformer = Some [''x1'', ''x2''] \<and>
   drop_na_rows dropping_transformer \<and>
   distinct (map fst (column_dtype_map dropping_transformer)) \<and>
   transform dropping_transformer lag_test_frame =
     Inr (state_after (transform dropping_transformer lag_test_frame),
          frame_after (transform dropping_transformer lag_test_frame)) \<and>
   map_of (frame_after (transform dropping_transformer lag_test_frame)) ''x1_LAG-2'' =
     Some \<lparr>dtype = Int64, cells = [Some (PInt 1), Some (PInt 2), Some (PInt 3)]\<rparr> \<and>
   None \<notin> set (cells \<lparr>dtype = Int64,
     cells = [Some (PInt 1 :: string pyval), Some (PInt 2), Some (PInt 3)]\<rparr>) \<and>
   transform (lag_one_dropna\<lparr>shift_columns := Some [''x'']\<rparr>) big_frame =
     Inr (lag_one_dropna
            \<lparr>shift_columns := Some [''x''], new_columns := [''x_LAG-1''],
             column_dtype_map := [(''x_LAG-1'', Int64)]\<rparr>,
          [(''x'', \<lparr>dtype = Int64,
              cells = [Some (PInt 9223372036854775807), Some (PInt 5)]\<rparr>),
           (''x_LAG-1'', \<lparr>dtype = Int64,
              cells = [Some (PInt 9007199254740992),
                       Some (PInt (- 9223372036854775808))]\<rparr>)])"
proof -
  let ?r = "transform dropping_transformer lag_test_frame"
  have h1: "shift_columns dropping_transformer = Some [''x1'', ''x2'']" by code_simp
  have h2: "drop_na_rows dropping_transformer" by code_simp
  have h3: "distinct (map fst (column_dtype_map dropping_transformer))" by code_simp
  have h4: "?r = Inr (state_after ?r, frame_after ?r)" by code_simp
  have h6: "map_of (frame_after ?r) ''x1_LAG-2'' =
     Some \<lparr>dtype = Int64, cells = [Some (PInt 1), Some (PInt 2), Some (PInt 3)]\<rparr>"
    by code_simp
  from drop_na_rows_then_cast [OF h1 h2 h3 h4] obtain W where
    "\<forall>n s'. map_of (frame_after ?r) n = Some s' \<longrightarrow>
       (\<exists>s. map_of W n = Some s \<and>
          (case map_of (column_dtype_map (state_after ?r)) n of
             None \<Rightarrow> s' = keep_rows W s
           | Some t \<Rightarrow> astype (keep_rows W s) t = Inr s' \<and> dtype s' = t) \<and>
          length (cells s') = length (kept_rows W) \<and>
          None \<notin> set (cells s'))"
    by (elim exE conjE)
  from this [rule_format, OF h6]
  have h7: "None \<notin> set (cells \<lparr>dtype = Int64,
     cells = [Some (PInt 1 :: string pyval), Some (PInt 2), Some (PInt 3)]\<rparr>)"
    by (elim exE conjE) assumption
  have h8: "transform (lag_one_dropna\<lparr>shift_columns := Some [''x'']\<rparr>) big_frame =
     Inr (lag_one_dropna
            \<lparr>shift_columns := Some [''x''], new_columns := [''x_LAG-1''],
             column_dtype_map := [(''x_LAG-1'', Int64)]\<rparr>,
          [(''x'', \<lparr>dtype = Int64,
              cells = [Some (PInt 9223372036854775807), Some (PInt 5)]\<rparr>),
           (''x_LAG-1'', \<lparr>dtype = Int64,
              cells = [Some (PInt 9007199254740992),
                       Some (PInt (- 9223372036854775808))]\<rparr>)])"
    by code_simp
  show ?thesis by (intro conjI h1 h2 h3 h4 h6 h7 h8)
qed

section \<open>Claim C6: the constructor of the datetime feature extractor\<close>

lemma catalog_keys:
  "map fst catalog =
     [''year'', ''month'', ''day-of-month'', ''day-of-year'', ''day-of-week'', ''is-weekend'',
      ''hour'', ''minute'', ''second'']"
  by (simp add: catalog_def)

lemma catalog_upper:
  "map upper (map fst catalog) =
     [''YEAR'', ''MONTH'', ''DAY-OF-MONTH'', ''DAY-OF-YEAR'', ''DAY-OF-WEEK'', ''IS-WEEKEND'',
      ''HOUR'', ''MINUTE'', ''SECOND'']"
  by (simp add: catalog_def upper_def upper_char_def)

lemma collect_features_to_pop_result:
  "collect_features_to_pop m fs acc =
     (if set fs \<subseteq> set (map fst m) then Inr (acc @ fs) else Inl AssertionError)"
  by (induction fs arbitrary: acc) auto

lemma delete_filter: "AList.delete k m = filter (\<lambda>p. fst p \<noteq> k) m"
  by (induction m) auto

lemma pop_features_result:
  "pop_features m fs =
     (if distinct fs \<and> set fs \<subseteq> set (map fst m)
      then Inr (filter (\<lambda>p. fst p \<notin> set fs) m) else Inl KeyError)"
proof (induction fs arbitrary: m)
  case Nil
  show ?case by simp
next
  case (Cons f fs)
  show ?case
  proof (cases "f \<in> set (map fst m)")
    case False
    then show ?thesis by simp
  next
    case True
    have keys: "set (map fst (AList.delete f m)) = set (map fst m) - {f}"
      by (auto simp: delete_filter)
    have "filter (\<lambda>p. fst p \<notin> set fs) (AList.delete f m) =
        filter (\<lambda>p. fst p \<notin> set (f # fs)) m"
      by (induction m) (auto simp: delete_filter)
    moreover from True
    have "distinct fs \<and> set fs \<subseteq> set (map fst (AList.delete f m)) \<longleftrightarrow>
        distinct (f # fs) \<and> set (f # fs) \<subseteq> set (map fst m)"
      unfolding keys by auto
    ultimately show ?thesis using True Cons.IH [of "AList.delete f m"] by simp
  qed
qed

lemma init_result:
  "DateTimeFeatures_init cols excl dropc =
     (if \<not> set (excluded excl) \<subseteq> set (map fst catalog) then Inl AssertionError
      else if \<not> distinct (excluded excl) then Inl KeyError
      else Inr \<lparr>dt_columns = cols, exclude_features = excl, dt_drop_original_columns = dropc,
                included_features_and_methods_map =
                  filter (\<lambda>p. fst p \<notin> set (excluded excl)) catalog\<rparr>)"
proof (cases excl)
  case None
  then show ?thesis
    by (simp add: DateTimeFeatures_init_def handle_excluded_features_def excluded_def)
next
  case (Some fs)
  then show ?thesis
    by (simp add: DateTimeFeatures_init_def handle_excluded_features_def excluded_def
        collect_features_to_pop_result pop_features_result)
qed

lemma attribute_error: "attribute f v = Inl e \<Longrightarrow> e = AttributeError"
  by (auto simp: attribute_def split: dcell.splits)

lemma get_is_weekend_error: "get_is_weekend v = Inl e \<Longrightarrow> e = AttributeError"
  by (cases v) (simp_all add: get_is_weekend_def)

lemma catalog_getters:
  "(k, g) \<in> set catalog \<Longrightarrow>
     g = get_is_weekend \<or> (\<exists>f. g = attribute f)"
  unfolding catalog_def get_year_def get_month_def get_day_of_month_def
    get_day_of_year_def get_day_of_week_def get_hour_def get_minute_def get_second_def
  by (simp only: set_simps insert_iff empty_iff prod.inject) blast

lemma catalog_getter_error:
  assumes "(k, g) \<in> set catalog" and "g v = Inl e"
  shows "e = AttributeError"
proof -
  from catalog_getters [OF assms(1)] show ?thesis
  proof
    assume "g = get_is_weekend"
    with assms(2) show ?thesis by (simp add: get_is_weekend_error)
  next
    assume "\<exists>f. g = attribute f"
    with assms(2) show ?thesis by (auto dest: attribute_error)
  qed
qed

lemma generate_features_error:
  assumes "set ms \<subseteq> set catalog" and "generate_features X d ms = Inl (e, X')"
  shows "e = KeyError \<or> e = AttributeError"
  using assms
proof (induction ms arbitrary: X)
  case Nil
  then show ?case by simp
next
  case (Cons p ms)
  obtain k g where p: "p = (k, g)" by (cases p)
  from Cons.prems(1) p have cat: "(k, g) \<in> set catalog" and sub: "set ms \<subseteq> set catalog"
    by simp_all
  show ?case
  proof (cases "map_of X d")
    case None
    with Cons.prems(2) p show ?thesis by (simp add: loc_get_def Let_def)
  next
    case (Some s)
    show ?thesis
    proof (cases "map_values g s")
      case (Inl e')
      with map_values_error [of g s e'] catalog_getter_error [OF cat]
      have "e' = AttributeError" by blast
      with Inl Some Cons.prems(2) p show ?thesis by (simp add: loc_get_def Let_def)
    next
      case (Inr s')
      with Some Cons.prems(2) p Cons.IH [OF sub] show ?thesis
        by (simp add: loc_get_def Let_def)
    qed
  qed
qed

lemma dt_generate_columns_error:
  assumes "set ms \<subseteq> set catalog" and "dt_generate_columns X cs ms = Inl (e, X')"
  shows "e = KeyError \<or> e = AttributeError"
  using assms(2)
proof (induction cs arbitrary: X)
  case Nil
  then show ?case by simp
next
  case (Cons c cs)
  show ?case
  proof (cases "generate_features X c ms")
    case (Inl r)
    obtain e1 X1 where "r = (e1, X1)" by (cases r)
    with Inl Cons.prems generate_features_error [OF assms(1), of X c e X1] show ?thesis
      by simp
  next
    case (Inr X1)
    with Cons.prems Cons.IH [of X1] show ?thesis by simp
  qed
qed

lemma dt_transform_error:
  assumes "set (included_features_and_methods_map dtf) \<subseteq> set catalog"
    and "dt_transform dtf X = Inl (e, X')"
  shows "e = KeyError \<or> e = AttributeError"
  using assms(2) dt_generate_columns_error [OF assms(1)]
  by (auto simp: dt_transform_def drop_columns_def split: sum.splits if_splits)

lemma init_Inr:
  assumes "DateTimeFeatures_init cols excl dropc = Inr dtf"
  shows "dtf = \<lparr>dt_columns = cols, exclude_features = excl, dt_drop_original_columns = dropc,
                included_features_and_methods_map =
                  filter (\<lambda>p. fst p \<notin> set (excluded excl)) catalog\<rparr>"
    and "set (excluded excl) \<subseteq> set (map fst catalog)" and "distinct (excluded excl)"
  using assms by (auto simp: init_result split: if_splits)

text \<open>
  Claim C6. Constructing the extractor raises the assertion error exactly when some entry
  of \<open>exclude_features\<close> is not one of the nine keys of the catalog. The constructor takes
  no frame, so the error comes before any frame is read or changed; an extractor that was
  constructed never raises it from \<open>fit\<close> (which does nothing) or \<open>transform\<close>.
\<close>

theorem unknown_feature_raises_at_construction:
  "(DateTimeFeatures_init cols excl dropc = Inl AssertionError \<longleftrightarrow>
      (\<exists>fs. excl = Some fs \<and>
         (\<exists>f \<in> set fs. f \<notin> {''year'', ''month'', ''day-of-month'', ''day-of-year'',
                                 ''day-of-week'', ''is-weekend'', ''hour'', ''minute'',
                                 ''second''}))) \<and>
   (\<forall>dtf X X'. DateTimeFeatures_init cols excl dropc = Inr dtf \<longrightarrow>
      dt_fit dtf X = dtf \<and> dt_transform dtf X \<noteq> Inl (AssertionError, X'))"
proof -
  have keys: "set (map fst catalog) = {''year'', ''month'', ''day-of-month'', ''day-of-year'',
      ''day-of-week'', ''is-weekend'', ''hour'', ''minute'', ''second''}"
    by (simp add: catalog_keys)
  have "DateTimeFeatures_init cols excl dropc = Inl AssertionError \<longleftrightarrow>
      \<not> set (excluded excl) \<subseteq> set (map fst catalog)"
    by (simp add: init_result)
  also have "\<dots> \<longleftrightarrow> (\<exists>fs. excl = Some fs \<and> (\<exists>f \<in> set fs. f \<notin> set (map fst catalog)))"
    by (cases excl) (auto simp: excluded_def)
  finally have a: "DateTimeFeatures_init cols excl dropc = Inl AssertionError \<longleftrightarrow>
      (\<exists>fs. excl = Some fs \<and>
         (\<exists>f \<in> set fs. f \<notin> {''year'', ''month'', ''day-of-month'', ''day-of-year'',
                                 ''day-of-week'', ''is-weekend'', ''hour'', ''minute'',
                                 ''second''}))"
    unfolding keys .
  have b: "dt_fit dtf X = dtf \<and> dt_transform dtf X \<noteq> Inl (AssertionError, X')"
    if "DateTimeFeatures_init cols excl dropc = Inr dtf" for dtf X X'
  proof -
    from init_Inr(1) [OF that]
    have "set (included_features_and_methods_map dtf) \<subseteq> set catalog" by auto
    from dt_transform_error [OF this, of X AssertionError X'] show ?thesis
      by (auto simp: dt_fit_def)
  qed
  from b have "\<forall>dtf X X'. DateTimeFeatures_init cols excl dropc = Inr dtf \<longrightarrow>
      dt_fit dtf X = dtf \<and> dt_transform dtf X \<noteq> Inl (AssertionError, X')"
    by (intro allI impI)
  with a show ?thesis by (rule conjI)
qed

theorem unknown_feature_raises_at_construction_witness:
  "DateTimeFeatures_init [''dt1''] (Some [''second'', ''weekday'']) False = Inl AssertionError \<and>
   DateTimeFeatures_init [''dt1''] (Some [''is-weekend'', ''second'']) False \<noteq> Inl AssertionError"
proof -
  note T = unknown_feature_raises_at_construction
  have e: "\<exists>fs. Some [''second'', ''weekday''] = Some fs \<and>
      (\<exists>f \<in> set fs. f \<notin> {''year'', ''month'', ''day-of-month'', ''day-of-year'',
             ''day-of-week'', ''is-weekend'', ''hour'', ''minute'', ''second''})"
    by simp
  note a = iffD2 [OF conjunct1 [OF T [of "[''dt1'']" "Some [''second'', ''weekday'']" False]] e]
  have ne: "\<not> (\<exists>fs. Some [''is-weekend'', ''second''] = Some fs \<and>
      (\<exists>f \<in> set fs. f \<notin> {''year'', ''month'', ''day-of-month'', ''day-of-year'',
             ''day-of-week'', ''is-weekend'', ''hour'', ''minute'', ''second''}))"
    by simp
  note b = contrapos_nn
    [OF ne iffD1 [OF conjunct1 [OF T [of "[''dt1'']" "Some [''is-weekend'', ''second'']" False]]]]
  from a b show ?thesis by (rule conjI)
qed

section \<open>Claim C7: one column per enabled feature kind\<close>

lemma generate_features_Cons_Inr:
  "generate_features X d ((k, g) # ms) = Inr X' \<longleftrightarrow>
     (\<exists>s s'. map_of X d = Some s \<and> map_values g s = Inr s' \<and>
        generate_features (loc_set X (get_new_feature_name d k) s') d ms = Inr X')"
  by (auto simp: loc_get_def Let_def split: option.splits sum.splits)

lemma generate_features_columns_set:
  "generate_features X d ms = Inr X' \<Longrightarrow>
     set (columns X') = set (columns X) \<union> set (feature_names d ms)"
proof (induction ms arbitrary: X)
  case Nil
  then show ?case by (simp add: feature_names_def)
next
  case (Cons p ms)
  obtain k g where p: "p = (k, g)" by (cases p)
  from Cons.prems obtain s' where
    r: "generate_features (loc_set X (get_new_feature_name d k) s') d ms = Inr X'"
    unfolding p generate_features_Cons_Inr by blast
  have "set (columns (loc_set X (get_new_feature_name d k) s')) =
      insert (get_new_feature_name d k) (set (columns X))"
    by (auto simp: columns_loc_set)
  with Cons.IH [OF r] p show ?case by (auto simp: feature_names_def)
qed

lemma generate_features_columns_fresh:
  assumes "generate_features X d ms = Inr X'"
    and "distinct (feature_names d ms)"
    and "set (feature_names d ms) \<inter> set (columns X) = {}"
  shows "columns X' = columns X @ feature_names d ms"
  using assms
proof (induction ms arbitrary: X)
  case Nil
  then show ?case by (simp add: feature_names_def)
next
  case (Cons p ms)
  obtain k g where p: "p = (k, g)" by (cases p)
  let ?n = "get_new_feature_name d k"
  from Cons.prems(1) obtain s' where
    r: "generate_features (loc_set X ?n s') d ms = Inr X'"
    unfolding p generate_features_Cons_Inr by blast
  from Cons.prems(3) p have "?n \<notin> set (columns X)" by (auto simp: feature_names_def)
  then have X1: "columns (loc_set X ?n s') = columns X @ [?n]" by (simp add: columns_loc_set)
  from Cons.prems(2,3) p
  have "distinct (feature_names d ms)"
    and "set (feature_names d ms) \<inter> set (columns (loc_set X ?n s')) = {}"
    by (auto simp: X1 feature_names_def)
  from Cons.IH [OF r this] X1 p show ?case by (simp add: feature_names_def)
qed

lemma dt_generate_columns_set:
  "dt_generate_columns X cs ms = Inr X' \<Longrightarrow>
     set (columns X') = set (columns X) \<union> set (all_feature_names cs ms)"
proof (induction cs arbitrary: X)
  case Nil
  then show ?case by (simp add: all_feature_names_def)
next
  case (Cons c cs)
  from Cons.prems obtain X1 where 1: "generate_features X c ms = Inr X1"
    and 2: "dt_generate_columns X1 cs ms = Inr X'"
    by (auto split: sum.splits)
  from generate_features_columns_set [OF 1] Cons.IH [OF 2] show ?case
    by (auto simp: all_feature_names_def)
qed

lemma dt_generate_columns_fresh:
  assumes "dt_generate_columns X cs ms = Inr X'"
    and "distinct (all_feature_names cs ms)"
    and "set (all_feature_names cs ms) \<inter> set (columns X) = {}"
  shows "columns X' = columns X @ all_feature_names cs ms"
  using assms
proof (induction cs arbitrary: X)
  case Nil
  then show ?case by (simp add: all_feature_names_def)
next
  case (Cons c cs)
  from Cons.prems(1) obtain X1 where 1: "generate_features X c ms = Inr X1"
    and 2: "dt_generate_columns X1 cs ms = Inr X'"
    by (auto split: sum.splits)
  have split: "all_feature_names (c # cs) ms = feature_names c ms @ all_feature_names cs ms"
    by (simp add: all_feature_names_def)
  from Cons.prems(2,3) have d1: "distinct (feature_names c ms)"
    and f1: "set (feature_names c ms) \<inter> set (columns X) = {}"
    and d2: "distinct (all_feature_names cs ms)"
    and dis: "set (feature_names c ms) \<inter> set (all_feature_names cs ms) = {}"
    and f2: "set (all_feature_names cs ms) \<inter> set (columns X) = {}"
    unfolding split by auto
  from generate_features_columns_fresh [OF 1 d1 f1]
  have X1: "columns X1 = columns X @ feature_names c ms" .
  with dis f2 have "set (all_feature_names cs ms) \<inter> set (columns X1) = {}" by auto
  from Cons.IH [OF 2 d2 this] X1 show ?case by (simp add: split)
qed

lemma catalog_upper_no_underscore:
  assumes "k \<in> set (map fst catalog)"
  shows "CHR ''_'' \<notin> set (upper k)"
proof -
  from assms have "upper k \<in> upper ` set (map fst catalog)" by (rule imageI)
  then have "upper k \<in> set (map upper (map fst catalog))" by (simp only: set_map)
  then show ?thesis unfolding catalog_upper by auto
qed

lemma catalog_upper_inj: "inj_on upper (set (map fst catalog))"
proof -
  have "distinct (map upper (map fst catalog))" unfolding catalog_upper by simp
  then show ?thesis by (simp only: distinct_map)
qed

lemma feature_name_inj:
  assumes "k \<in> set (map fst catalog)" and "k' \<in> set (map fst catalog)"
    and "get_new_feature_name d k = get_new_feature_name d' k'"
  shows "d = d' \<and> k = k'"
proof -
  from assms(3) have "d @ CHR ''_'' # upper k = d' @ CHR ''_'' # upper k'"
    by (simp add: get_new_feature_name_def)
  from append_sep_eq [OF this catalog_upper_no_underscore [OF assms(1)]
      catalog_upper_no_underscore [OF assms(2)]]
  have "d = d'" and "upper k = upper k'" by simp_all
  with catalog_upper_inj assms(1,2) show ?thesis by (auto dest: inj_onD)
qed

lemma all_feature_names_product:
  "all_feature_names cs ms =
     map (\<lambda>p. get_new_feature_name (fst p) (snd p)) (List.product cs (map fst ms))"
  by (induction cs) (simp_all add: all_feature_names_def feature_names_def comp_def)

lemma all_feature_names_distinct:
  assumes "distinct cs" and "distinct (map fst ms)" and "set (map fst ms) \<subseteq> set (map fst catalog)"
  shows "distinct (all_feature_names cs ms)"
proof -
  have "inj_on (\<lambda>p. get_new_feature_name (fst p) (snd p)) (set (List.product cs (map fst ms)))"
  proof (rule inj_onI)
    fix p q
    assume "p \<in> set (List.product cs (map fst ms))" and "q \<in> set (List.product cs (map fst ms))"
      and eq: "get_new_feature_name (fst p) (snd p) = get_new_feature_name (fst q) (snd q)"
    then have "snd p \<in> set (map fst ms)" and "snd q \<in> set (map fst ms)"
      by (metis mem_Times_iff set_product)+
    with assms(3) have "snd p \<in> set (map fst catalog)" and "snd q \<in> set (map fst catalog)"
      by blast+
    from feature_name_inj [OF this eq] show "p = q" by (simp add: prod_eq_iff)
  qed
  moreover from assms(1,2) have "distinct (List.product cs (map fst ms))"
    by (rule distinct_product)
  ultimately show ?thesis by (simp add: all_feature_names_product distinct_map)
qed

lemma feature_names_distinct:
  assumes "distinct (map fst ms)" and "set (map fst ms) \<subseteq> set (map fst catalog)"
  shows "distinct (feature_names d ms)"
proof -
  from all_feature_names_distinct [of "[d]" ms] assms show ?thesis
    by (simp add: all_feature_names_def)
qed

lemma catalog_distinct: "distinct (map fst catalog)"
  unfolding catalog_keys by simp

lemma included_length:
  assumes "distinct ex" and "set ex \<subseteq> set (map fst catalog)"
  shows "length (filter (\<lambda>p. fst p \<notin> set ex) catalog) = 9 - length ex"
proof -
  let ?ks = "map fst catalog"
  have "length (filter (\<lambda>p. fst p \<notin> set ex) catalog) = length (filter (\<lambda>k. k \<notin> set ex) ?ks)"
    by (simp add: filter_map comp_def)
  also have "\<dots> = card (set (filter (\<lambda>k. k \<notin> set ex) ?ks))"
  proof -
    from catalog_distinct have "distinct (filter (\<lambda>k. k \<notin> set ex) ?ks)"
      by (rule distinct_filter)
    then show ?thesis by (rule distinct_card [symmetric])
  qed
  also have "set (filter (\<lambda>k. k \<notin> set ex) ?ks) = set ?ks - set ex" by auto
  also from assms(2) have "card (set ?ks - set ex) = card (set ?ks) - card (set ex)"
    by (simp add: card_Diff_subset)
  also have "card (set ?ks) = 9"
    using distinct_card [OF catalog_distinct] by (simp add: catalog_keys)
  also from assms(1) have "card (set ex) = length ex" by (rule distinct_card)
  finally show ?thesis .
qed

lemma dt_transform_Inr:
  "dt_transform dtf X = Inr X' \<longleftrightarrow>
     (\<exists>X1. dt_generate_columns X (dt_columns dtf) (included_features_and_methods_map dtf) = Inr X1 \<and>
        (if dt_drop_original_columns dtf
         then set (dt_columns dtf) \<subseteq> set (columns X1) \<and>
              X' = filter (\<lambda>p. fst p \<notin> set (dt_columns dtf)) X1
         else X' = X1))"
  by (auto simp: dt_transform_def drop_columns_def list_all_iff split: sum.splits if_splits)

text \<open>
  Claim C7. An extractor that was constructed has as enabled kinds the nine catalog keys
  without the excluded ones, in catalog order: \<open>9 - k\<close> of them when \<open>k\<close> kinds are excluded
  (the excluded list then has no repetition). For a datetime column \<open>d\<close> the generated names
  are \<open>d\<close>, an underscore and the kind in upper case, one per enabled kind and pairwise
  different. A transform call that returns has every generated name as a column (unless the
  name is a datetime column that the call drops), and when the datetime columns are pairwise
  different and the frame had no column of a generated name, its columns are the old ones
  followed by exactly the generated ones, column by column and kind by kind.
\<close>

theorem one_column_per_enabled_feature:
  assumes "DateTimeFeatures_init cols excl dropc = Inr dtf"
  shows "map fst catalog =
           [''year'', ''month'', ''day-of-month'', ''day-of-year'', ''day-of-week'',
            ''is-weekend'', ''hour'', ''minute'', ''second''] \<and>
         map fst (included_features_and_methods_map dtf) =
           filter (\<lambda>k. k \<notin> set (excluded excl)) (map fst catalog) \<and>
         length (included_features_and_methods_map dtf) = 9 - length (excluded excl) \<and>
         (\<forall>d. feature_names d catalog =
            [d @ ''_YEAR'', d @ ''_MONTH'', d @ ''_DAY-OF-MONTH'', d @ ''_DAY-OF-YEAR'',
             d @ ''_DAY-OF-WEEK'', d @ ''_IS-WEEKEND'', d @ ''_HOUR'', d @ ''_MINUTE'',
             d @ ''_SECOND''] \<and>
            feature_names d (included_features_and_methods_map dtf) =
              map (\<lambda>k. d @ ''_'' @ upper k) (map fst (included_features_and_methods_map dtf)) \<and>
            distinct (feature_names d (included_features_and_methods_map dtf)) \<and>
            length (feature_names d (included_features_and_methods_map dtf)) =
              9 - length (excluded excl)) \<and>
         (\<forall>X X'. dt_transform dtf X = Inr X' \<longrightarrow>
            (\<forall>d \<in> set cols. \<forall>n \<in> set (feature_names d (included_features_and_methods_map dtf)).
               (dropc \<longrightarrow> n \<notin> set cols) \<longrightarrow> n \<in> set (columns X')) \<and>
            (distinct cols \<and>
             set (all_feature_names cols (included_features_and_methods_map dtf)) \<inter>
               set (columns X) = {} \<longrightarrow>
             columns X' =
               (if dropc
                then filter (\<lambda>n. n \<notin> set cols)
                       (columns X @ all_feature_names cols (included_features_and_methods_map dtf))
                else columns X @ all_feature_names cols (included_features_and_methods_map dtf))))"
proof -
  let ?ms = "included_features_and_methods_map dtf"
  note dtf = init_Inr [OF assms]
  from dtf(1) have ms: "?ms = filter (\<lambda>p. fst p \<notin> set (excluded excl)) catalog"
    and cols: "dt_columns dtf = cols" and dropc: "dt_drop_original_columns dtf = dropc"
    by simp_all
  have keys: "map fst ?ms = filter (\<lambda>k. k \<notin> set (excluded excl)) (map fst catalog)"
    unfolding ms by (simp add: filter_map comp_def)
  from keys catalog_distinct have dk: "distinct (map fst ?ms)" by simp
  from keys have sub: "set (map fst ?ms) \<subseteq> set (map fst catalog)" by auto
  have len: "length ?ms = 9 - length (excluded excl)"
    unfolding ms using dtf(3,2) by (rule included_length)
  have names: "feature_names d catalog =
            [d @ ''_YEAR'', d @ ''_MONTH'', d @ ''_DAY-OF-MONTH'', d @ ''_DAY-OF-YEAR'',
             d @ ''_DAY-OF-WEEK'', d @ ''_IS-WEEKEND'', d @ ''_HOUR'', d @ ''_MINUTE'',
             d @ ''_SECOND'']" for d
  proof -
    have "feature_names d catalog = map (\<lambda>u. d @ ''_'' @ u) (map upper (map fst catalog))"
      by (simp add: feature_names_def get_new_feature_name_def comp_def)
    then show ?thesis unfolding catalog_upper by simp
  qed
  have per: "feature_names d catalog =
            [d @ ''_YEAR'', d @ ''_MONTH'', d @ ''_DAY-OF-MONTH'', d @ ''_DAY-OF-YEAR'',
             d @ ''_DAY-OF-WEEK'', d @ ''_IS-WEEKEND'', d @ ''_HOUR'', d @ ''_MINUTE'',
             d @ ''_SECOND''] \<and>
            feature_names d ?ms = map (\<lambda>k. d @ ''_'' @ upper k) (map fst ?ms) \<and>
            distinct (feature_names d ?ms) \<and>
            length (feature_names d ?ms) = 9 - length (excluded excl)" for d
    using names [of d] feature_names_distinct [OF dk sub, of d] len
    by (simp add: feature_names_def get_new_feature_name_def comp_def)
  have tr: "(\<forall>d \<in> set cols. \<forall>n \<in> set (feature_names d ?ms).
               (dropc \<longrightarrow> n \<notin> set cols) \<longrightarrow> n \<in> set (columns X')) \<and>
            (distinct cols \<and> set (all_feature_names cols ?ms) \<inter> set (columns X) = {} \<longrightarrow>
             columns X' =
               (if dropc
                then filter (\<lambda>n. n \<notin> set cols) (columns X @ all_feature_names cols ?ms)
                else columns X @ all_feature_names cols ?ms))"
    if "dt_transform dtf X = Inr X'" for X X'
  proof -
    from that obtain X1 where 1: "dt_generate_columns X cols ?ms = Inr X1"
      and 2: "if dropc then set cols \<subseteq> set (columns X1) \<and>
                X' = filter (\<lambda>p. fst p \<notin> set cols) X1 else X' = X1"
      unfolding dt_transform_Inr cols dropc by blast
    have X': "columns X' = (if dropc then filter (\<lambda>n. n \<notin> set cols) (columns X1) else columns X1)"
    proof (cases dropc)
      case True
      with 2 have "X' = filter (\<lambda>p. fst p \<notin> set cols) X1" by simp
      with True show ?thesis by (simp add: columns_filter_notin)
    next
      case False
      with 2 show ?thesis by simp
    qed
    from dt_generate_columns_set [OF 1]
    have X1: "set (columns X1) = set (columns X) \<union> set (all_feature_names cols ?ms)" .
    have a: "n \<in> set (columns X')"
      if "d \<in> set cols" and "n \<in> set (feature_names d ?ms)" and "dropc \<longrightarrow> n \<notin> set cols"
      for d n
    proof -
      from that(1,2) have "n \<in> set (all_feature_names cols ?ms)"
        by (auto simp: all_feature_names_def)
      with X1 that(3) show ?thesis by (simp add: X')
    qed
    have b: "columns X' =
               (if dropc
                then filter (\<lambda>n. n \<notin> set cols) (columns X @ all_feature_names cols ?ms)
                else columns X @ all_feature_names cols ?ms)"
      if "distinct cols \<and> set (all_feature_names cols ?ms) \<inter> set (columns X) = {}"
    proof -
      from that all_feature_names_distinct [OF _ dk sub, of cols]
      have "distinct (all_feature_names cols ?ms)" by simp
      from dt_generate_columns_fresh [OF 1 this] that
      have "columns X1 = columns X @ all_feature_names cols ?ms" by simp
      with X' show ?thesis by simp
    qed
    from a b show ?thesis by blast
  qed
  from per have per': "\<forall>d. feature_names d catalog =
            [d @ ''_YEAR'', d @ ''_MONTH'', d @ ''_DAY-OF-MONTH'', d @ ''_DAY-OF-YEAR'',
             d @ ''_DAY-OF-WEEK'', d @ ''_IS-WEEKEND'', d @ ''_HOUR'', d @ ''_MINUTE'',
             d @ ''_SECOND''] \<and>
            feature_names d ?ms = map (\<lambda>k. d @ ''_'' @ upper k) (map fst ?ms) \<and>
            distinct (feature_names d ?ms) \<and>
            length (feature_names d ?ms) = 9 - length (excluded excl)"
    by (rule allI)
  from tr have tr': "\<forall>X X'. dt_transform dtf X = Inr X' \<longrightarrow>
            (\<forall>d \<in> set cols. \<forall>n \<in> set (feature_names d ?ms).
               (dropc \<longrightarrow> n \<notin> set cols) \<longrightarrow> n \<in> set (columns X')) \<and>
            (distinct cols \<and> set (all_feature_names cols ?ms) \<inter> set (columns X) = {} \<longrightarrow>
             columns X' =
               (if dropc
                then filter (\<lambda>n. n \<notin> set cols) (columns X @ all_feature_names cols ?ms)
                else columns X @ all_feature_names cols ?ms))"
    by (intro allI impI)
  from catalog_keys keys len per' tr' show ?thesis by (intro conjI)
qed

theorem one_column_per_enabled_feature_witness:
  "DateTimeFeatures_init [''dt1'', ''dt2''] (Some [''is-weekend'', ''second'']) False =
     Inr main_extractor \<and>
   length (included_features_and_methods_map main_extractor) = 7 \<and>
   feature_names ''dt1'' (included_features_and_methods_map main_extractor) =
     [''dt1_YEAR'', ''dt1_MONTH'', ''dt1_DAY-OF-MONTH'', ''dt1_DAY-OF-YEAR'',
      ''dt1_DAY-OF-WEEK'', ''dt1_HOUR'', ''dt1_MINUTE''] \<and>
   dt_transform main_extractor dt_frame =
     Inr [(''dt1'', [Stamp monday]), (''dt2'', [Stamp thursday]),
          (''dt1_YEAR'', [IntV 1994]), (''dt1_MONTH'', [IntV 8]),
          (''dt1_DAY-OF-MONTH'', [IntV 15]), (''dt1_DAY-OF-YEAR'', [IntV 227]),
          (''dt1_DAY-OF-WEEK'', [IntV 0]), (''dt1_HOUR'', [IntV 0]), (''dt1_MINUTE'', [IntV 0]),
          (''dt2_YEAR'', [IntV 2021]), (''dt2_MONTH'', [IntV 7]),
          (''dt2_DAY-OF-MONTH'', [IntV 22]), (''dt2_DAY-OF-YEAR'', [IntV 203]),
          (''dt2_DAY-OF-WEEK'', [IntV 3]), (''dt2_HOUR'', [IntV 0]), (''dt2_MINUTE'', [IntV 0])]"
proof -
  have h1: "DateTimeFeatures_init [''dt1'', ''dt2''] (Some [''is-weekend'', ''second'']) False =
     Inr main_extractor"
    by (simp add: init_result excluded_def catalog_def main_extractor_def)
  note T = one_column_per_enabled_feature [OF h1]
  have e: "9 - length (excluded (Some [''is-weekend'', ''second''])) = 7"
    by (simp add: excluded_def)
  from conjunct1 [OF conjunct2 [OF conjunct2 [OF T]]] e
  have h2: "length (included_features_and_methods_map main_extractor) = 7" by (rule trans)
  have h3: "feature_names ''dt1'' (included_features_and_methods_map main_extractor) =
     [''dt1_YEAR'', ''dt1_MONTH'', ''dt1_DAY-OF-MONTH'', ''dt1_DAY-OF-YEAR'',
      ''dt1_DAY-OF-WEEK'', ''dt1_HOUR'', ''dt1_MINUTE'']"
    by code_simp
  have h4: "dt_transform main_extractor dt_frame =
     Inr [(''dt1'', [Stamp monday]), (''dt2'', [Stamp thursday]),
          (''dt1_YEAR'', [IntV 1994]), (''dt1_MONTH'', [IntV 8]),
          (''dt1_DAY-OF-MONTH'', [IntV 15]), (''dt1_DAY-OF-YEAR'', [IntV 227]),
          (''dt1_DAY-OF-WEEK'', [IntV 0]), (''dt1_HOUR'', [IntV 0]), (''dt1_MINUTE'', [IntV 0]),
          (''dt2_YEAR'', [IntV 2021]), (''dt2_MONTH'', [IntV 7]),
          (''dt2_DAY-OF-MONTH'', [IntV 22]), (''dt2_DAY-OF-YEAR'', [IntV 203]),
          (''dt2_DAY-OF-WEEK'', [IntV 3]), (''dt2_HOUR'', [IntV 0]), (''dt2_MINUTE'', [IntV 0])]"
    by code_simp
  show ?thesis by (intro conjI h1 h2 h3 h4)
qed

end
